theory Spec2Isabelle
  imports Main
begin

section \<open>Strings, characters and the JavaScript primitives the builder uses\<close>

text \<open>
  A JavaScript string is a sequence of UTF-16 code units. The model uses \<open>string\<close>;
  one \<open>char\<close> stands for one code unit below 256, which covers every
  character the builder's regular expressions distinguish.
\<close>

definition is_upper :: "char \<Rightarrow> bool" where
  "is_upper c \<longleftrightarrow> (65::nat) \<le> of_char c \<and> (of_char c :: nat) \<le> 90"

definition is_lower :: "char \<Rightarrow> bool" where
  "is_lower c \<longleftrightarrow> (97::nat) \<le> of_char c \<and> (of_char c :: nat) \<le> 122"

definition is_digit :: "char \<Rightarrow> bool" where
  "is_digit c \<longleftrightarrow> (48::nat) \<le> of_char c \<and> (of_char c :: nat) \<le> 57"

text \<open>The character class \<^verbatim>\<open>[a-zA-Z_]\<close>.\<close>

definition is_ident_start :: "char \<Rightarrow> bool" where
  "is_ident_start c \<longleftrightarrow> is_lower c \<or> is_upper c \<or> c = CHR ''_''"

text \<open>The character class \<^verbatim>\<open>[a-zA-Z0-9_]\<close>.\<close>

definition is_ident_char :: "char \<Rightarrow> bool" where
  "is_ident_char c \<longleftrightarrow> is_lower c \<or> is_upper c \<or> is_digit c \<or> c = CHR ''_''"

text \<open>
  The white space and line terminators that \<^verbatim>\<open>String.prototype.trim\<close> removes,
  among the code units below 256: TAB, LF, VT, FF, CR, SPACE and NBSP.
\<close>

definition is_js_space :: "char \<Rightarrow> bool" where
  "is_js_space c \<longleftrightarrow> (of_char c :: nat) \<in> {9, 10, 11, 12, 13, 32, 160}"

definition trim :: "string \<Rightarrow> string" where
  "trim s = rev (dropWhile is_js_space (rev (dropWhile is_js_space s)))"

text \<open>\<^verbatim>\<open>Array.prototype.join\<close> on an array of strings.\<close>

fun join :: "string \<Rightarrow> string list \<Rightarrow> string" where
  "join sep [] = []"
| "join sep [x] = x"
| "join sep (x # y # ys) = x @ sep @ join sep (y # ys)"

text \<open>
  A number is modelled as an \<open>int\<close>: page indexes, page sizes and row counts are
  integers, and on integers of magnitude below \<open>2 ^ 53\<close> the arithmetic of doubles is
  exact. \<open>show_int\<close> is the conversion of such a number to a string that a template
  literal performs: decimal digits, with a minus sign for a negative number.
\<close>

fun show_nat :: "nat \<Rightarrow> string" where
  "show_nat n =
     (if n < 10 then [char_of (48 + n)]
      else show_nat (n div 10) @ [char_of (48 + n mod 10)])"

definition show_int :: "int \<Rightarrow> string" where
  "show_int i = (if i < 0 then CHR ''-'' # show_nat (nat (- i)) else show_nat (nat i))"

section \<open>Errors\<close>

text \<open>
  \<^verbatim>\<open>SQLBuildError\<close> is the builder's own error class; \<open>Error\<close> is the plain
  JavaScript error that \<^verbatim>\<open>paginateData\<close> throws. Both carry their message.
\<close>

datatype error = SQLBuildError string | Error string

section \<open>Data model\<close>

text \<open>
  An object used as a dictionary (\<^verbatim>\<open>{ [key: string]: T }\<close>) is the list of its own
  properties in the order JavaScript enumerates them.
\<close>

type_synonym 'a jsobject = "(string \<times> 'a) list"

type_synonym Fields = "string jsobject"

text \<open>
  \<^verbatim>\<open>SQLQueryView\<close>: a named query that may depend on other views. The datatype
  holds finite trees, so a view that is shared appears once under each of its users, and
  a cyclic object graph has no representation.
\<close>

datatype SQLQueryView =
  SQLQueryView (qv_name: string) (qv_query: string)
    (qv_dependsOn: "(string \<times> SQLQueryView) list option")

text \<open>
  \<^verbatim>\<open>WithSubquerySQL\<close>. The join type is a string, since the validator checks it at
  run time. The optional \<^verbatim>\<open>params\<close> field of a subquery is never read by the
  builder and is left out.
\<close>

record WithSubquerySQL =
  sq_name :: string
  sq_alias :: string
  sq_query :: string
  sq_joinType :: string
  sq_joinOn :: string
  sq_fields :: Fields
  sq_dependsOn :: "SQLQueryView jsobject option"

text \<open>\<^verbatim>\<open>SQLQuery\<close>; an optional property that is \<^verbatim>\<open>undefined\<close> is \<open>None\<close>.\<close>

record SQLQuery =
  q_sourceTable :: "string option"
  q_sourceQuery :: "string option"
  q_alias :: string
  q_fields :: Fields
  q_where :: "string option"
  q_withSubqueries :: "WithSubquerySQL list option"

text \<open>
  \<^verbatim>\<open>SQParams\<close>, the named-parameter object, with values of any type \<open>'v\<close>. The
  builder tests membership with the \<^verbatim>\<open>in\<close> operator, which also answers true for a
  property the object inherits through its prototype chain (\<^verbatim>\<open>toString\<close>,
  \<^verbatim>\<open>constructor\<close> and the other members of \<^verbatim>\<open>Object.prototype\<close> for an
  object literal), so the record keeps the own properties and the inherited ones apart.
\<close>

record 'v SQParams =
  own_props :: "string \<rightharpoonup> 'v"
  inherited_props :: "string \<rightharpoonup> 'v"

text \<open>\<^verbatim>\<open>BuildComplexSQLParams\<close>, the options of one call.\<close>

record 'v BuildComplexSQLParams =
  o_where :: "string option"
  o_params :: "'v SQParams option"
  o_page :: "int option"
  o_page_size :: "int option"
  o_order_by :: "string list option"

text \<open>Truthiness of an optional string: \<^verbatim>\<open>undefined\<close> and \<^verbatim>\<open>""\<close> are falsy.\<close>

definition truthy :: "string option \<Rightarrow> bool" where
  "truthy s = (case s of None \<Rightarrow> False | Some t \<Rightarrow> t \<noteq> [])"

text \<open>The string of an optional string that is truthy.\<close>

definition text_of :: "string option \<Rightarrow> string" where
  "text_of s = (case s of None \<Rightarrow> [] | Some t \<Rightarrow> t)"

section \<open>The validator\<close>

text \<open>
  The loop over \<^verbatim>\<open>query.withSubqueries\<close>: the first subquery that fails a check
  throws.
\<close>

fun validateSubqueries :: "WithSubquerySQL list \<Rightarrow> error + unit" where
  "validateSubqueries [] = Inr ()"
| "validateSubqueries (s # ss) =
     (if sq_name s = [] \<or> sq_alias s = [] \<or> sq_query s = [] \<or> sq_joinType s = []
         \<or> sq_joinOn s = []
      then Inl (SQLBuildError ''Invalid subquery configuration: missing required fields'')
      else if sq_joinType s \<notin> set [''JOIN'', ''LEFT JOIN'']
      then Inl (SQLBuildError (''Invalid join type: '' @ sq_joinType s))
      else validateSubqueries ss)"

text \<open>
  \<^verbatim>\<open>validateInputs\<close>. The \<^verbatim>\<open>typeof\<close> tests of the source are decided by the
  declared types (\<open>alias\<close> is a string, \<open>fields\<close> is an object, \<open>page\<close> and
  \<open>page_size\<close> are numbers when present) and do not appear.
\<close>

definition validateInputs ::
  "SQLQuery \<Rightarrow> 'v BuildComplexSQLParams option \<Rightarrow> error + unit" where
  "validateInputs query options =
     (if \<not> truthy (q_sourceQuery query) \<and> \<not> truthy (q_sourceTable query)
      then Inl (SQLBuildError ''sourceTable is required and must be a string'')
      else if \<not> truthy (q_sourceTable query) \<and> \<not> truthy (q_sourceQuery query)
      then Inl (SQLBuildError ''sourceQuery is required and must be a string'')
      else if q_alias query = []
      then Inl (SQLBuildError ''alias is required and must be a string'')
      else if q_fields query = []
      then Inl (SQLBuildError ''fields must contain at least one field definition'')
      else if (case Option.bind options o_page of None \<Rightarrow> False | Some p \<Rightarrow> p < 0)
      then Inl (SQLBuildError ''page must be a positive number'')
      else if (case Option.bind options o_page_size of None \<Rightarrow> False | Some n \<Rightarrow> n \<le> 0)
      then Inl (SQLBuildError ''page_size must be a positive number'')
      else (case q_withSubqueries query of
              None \<Rightarrow> Inr ()
            | Some subqueries \<Rightarrow> validateSubqueries subqueries))"

section \<open>Clause builders\<close>

definition sanitizeIdentifier :: "string \<Rightarrow> string" where
  "sanitizeIdentifier identifier = filter is_ident_char identifier"

subsection \<open>Property order of objects and the spread of object literals\<close>

text \<open>
  JavaScript enumerates the own properties of an object with the array indexes first, in
  ascending numeric order, and the other string keys after them in the order of their
  creation. An array index is a canonical decimal numeral below \<open>2 ^ 32 - 1\<close>.
\<close>

definition index_value :: "string \<Rightarrow> nat" where
  "index_value k = foldl (\<lambda>a c. 10 * a + (of_char c - 48)) 0 k"

definition is_array_index :: "string \<Rightarrow> bool" where
  "is_array_index k \<longleftrightarrow>
     k \<noteq> [] \<and> list_all is_digit k \<and> (k = ''0'' \<or> hd k \<noteq> CHR ''0'')
     \<and> index_value k < 2 ^ 32 - 1"

fun insert_index :: "string \<Rightarrow> 'a \<Rightarrow> 'a jsobject \<Rightarrow> 'a jsobject" where
  "insert_index k v [] = [(k, v)]"
| "insert_index k v ((k', v') # rest) =
     (if is_array_index k' \<and> index_value k' < index_value k
      then (k', v') # insert_index k v rest
      else (k, v) # (k', v') # rest)"

text \<open>
  Creating the data property \<open>k\<close> with value \<open>v\<close>: an existing property keeps its
  place and takes the new value, a new one goes where the enumeration order puts it.
\<close>

definition obj_put :: "string \<Rightarrow> 'a \<Rightarrow> 'a jsobject \<Rightarrow> 'a jsobject" where
  "obj_put k v obj =
     (if k \<in> fst ` set obj
      then map (\<lambda>(k', v'). if k' = k then (k', v) else (k', v')) obj
      else if is_array_index k then insert_index k v obj
      else obj @ [(k, v)])"

text \<open>Copying the own properties of \<open>src\<close>, in their order, onto \<open>target\<close>.\<close>

definition copy_props :: "'a jsobject \<Rightarrow> 'a jsobject \<Rightarrow> 'a jsobject" where
  "copy_props target src = foldl (\<lambda>obj (k, v). obj_put k v obj) target src"

text \<open>The object literal \<^verbatim>\<open>{ ...a, ...b }\<close>.\<close>

definition spread :: "'a jsobject \<Rightarrow> 'a jsobject \<Rightarrow> 'a jsobject" where
  "spread a b = copy_props (copy_props [] a) b"

subsection \<open>WITH\<close>

text \<open>
  The \<^verbatim>\<open>reduce\<close> of \<^verbatim>\<open>buildWithClause\<close>, which merges the
  \<^verbatim>\<open>dependsOn\<close> objects of the subqueries from left to right.
\<close>

definition depWithClauses :: "WithSubquerySQL list \<Rightarrow> SQLQueryView jsobject" where
  "depWithClauses subqueries =
     foldl (\<lambda>acc subquery.
              case sq_dependsOn subquery of
                Some d \<Rightarrow> spread acc d
              | None \<Rightarrow> acc)
           [] subqueries"

fun expandQueryView :: "SQLQueryView \<Rightarrow> string list" where
  "expandQueryView (SQLQueryView name query dependsOn) =
     (case dependsOn of
        None \<Rightarrow> []
      | Some d \<Rightarrow> concat (map (\<lambda>kv. expandQueryView (snd kv)) d))
     @ [trim name @ '' AS ('' @ trim query @ '')'']"

definition buildWithClause :: "WithSubquerySQL list \<Rightarrow> string" where
  "buildWithClause subqueries =
     (if subqueries = [] then []
      else
        let withClauses = concat (map (\<lambda>kv. expandQueryView (snd kv)) (depWithClauses subqueries));
            secondWithClauses =
              map (\<lambda>subquery.
                     sanitizeIdentifier (sq_name subquery) @ '' AS ('' @ trim (sq_query subquery) @ '')'')
                  subqueries
        in ''WITH '' @ join '', '' (withClauses @ secondWithClauses))"

subsection \<open>SELECT\<close>

definition render_field :: "string \<times> string \<Rightarrow> string" where
  "render_field fe = trim (snd fe) @ '' AS '' @ sanitizeIdentifier (fst fe)"

definition buildSelectClause :: "SQLQuery \<Rightarrow> 'v BuildComplexSQLParams option \<Rightarrow> string" where
  "buildSelectClause query options =
     (let mainFields = map render_field (q_fields query);
          subqueryFields =
            concat (map (\<lambda>subquery. map render_field (sq_fields subquery))
                        (case q_withSubqueries query of None \<Rightarrow> [] | Some ss \<Rightarrow> ss));
          allFields = mainFields @ subqueryFields
      in if (case Option.bind options o_order_by of None \<Rightarrow> False | Some ob \<Rightarrow> length ob > 1)
            \<and> Option.bind options o_page_size \<noteq> None
            \<and> Option.bind options o_page \<noteq> None
         then ''SELECT '' @ join '', ''
                (allFields @
                 [''COUNT('' @ q_alias query @ ''.id) OVER (ORDER BY $rev_order_by) - 1 AS _sql_util_remaining'',
                  ''COUNT('' @ q_alias query @ ''.id) OVER (ORDER BY $order_by) AS _sql_util_num''])
         else ''SELECT '' @ join '', '' allFields)"

subsection \<open>JOIN\<close>

definition buildJoinClauses :: "WithSubquerySQL list \<Rightarrow> string" where
  "buildJoinClauses subqueries =
     (if subqueries = [] then []
      else join [CHR 0x0A]
             (map (\<lambda>subquery.
                     sq_joinType subquery @ '' '' @ sanitizeIdentifier (sq_name subquery) @ '' AS ''
                       @ sanitizeIdentifier (sq_alias subquery) @ '' ON '' @ sq_joinOn subquery)
                  subqueries))"

section \<open>Substitution of macros and named parameters\<close>

subsection \<open>Reversing the direction of the order terms\<close>

text \<open>
  \<^verbatim>\<open>orderByCondition.replace(/(ASC|DESC)/gi, ...)\<close>. The pattern ignores case;
  the callback exchanges the upper-case words only and returns any other match as it is.
\<close>

definition ci_eq :: "char \<Rightarrow> char \<Rightarrow> bool" where
  "ci_eq p c \<longleftrightarrow> c = p \<or> (of_char c :: nat) = of_char p + 32"

fun ci_prefix :: "string \<Rightarrow> string \<Rightarrow> bool" where
  "ci_prefix [] s = True"
| "ci_prefix (p # ps) [] = False"
| "ci_prefix (p # ps) (c # cs) = (ci_eq p c \<and> ci_prefix ps cs)"

definition flip_word :: "string \<Rightarrow> string" where
  "flip_word val =
     (if val = ''ASC'' then ''DESC'' else if val = ''DESC'' then ''ASC'' else val)"

fun rev_order :: "string \<Rightarrow> string" where
  "rev_order [] = []"
| "rev_order (c # cs) =
     (if ci_prefix ''ASC'' (c # cs) then flip_word (c # take 2 cs) @ rev_order (drop 2 cs)
      else if ci_prefix ''DESC'' (c # cs) then flip_word (c # take 3 cs) @ rev_order (drop 3 cs)
      else c # rev_order cs)"

subsection \<open>The macro pass\<close>

text \<open>
  The callback of the first \<^verbatim>\<open>replace\<close>, for the identifier captured after
  \<^verbatim>\<open>$\<close>. \<open>orderByCondition\<close> is \<open>None\<close> when no \<^verbatim>\<open>order_by\<close> was given.
\<close>

definition macro_callback :: "string option \<Rightarrow> string \<Rightarrow> error + string" where
  "macro_callback orderByCondition paramName =
     (if paramName = ''order_by'' then
        (case orderByCondition of
           None \<Rightarrow> Inl (SQLBuildError ''Missing order_by'')
         | Some obc \<Rightarrow> if obc = [] then Inl (SQLBuildError ''Missing order_by'') else Inr obc)
      else if paramName = ''rev_order_by'' then
        (case orderByCondition of
           None \<Rightarrow> Inl (SQLBuildError ''Missing order_by'')
         | Some obc \<Rightarrow>
             if obc = [] then Inl (SQLBuildError ''Missing order_by'') else Inr (rev_order obc))
      else Inr [])"

text \<open>
  \<^verbatim>\<open>finalQuery.replace(/\$([a-zA-Z_][a-zA-Z0-9_]*)/g, callback)\<close>: the text is read
  from left to right, a match is the dollar sign with the longest identifier after it,
  the text of a replacement is not read again, and the first callback that throws ends
  the pass.
\<close>

lemma length_dropWhile_less [termination_simp]:
  "length (dropWhile P xs) < Suc (length xs)"
  by (simp add: length_dropWhile_le less_Suc_eq_le)

fun replace_macros :: "string option \<Rightarrow> string \<Rightarrow> error + string" where
  "replace_macros obc [] = Inr []"
| "replace_macros obc (c # cs) =
     (if c = CHR ''$'' \<and> cs \<noteq> [] \<and> is_ident_start (hd cs) then
        (case macro_callback obc (takeWhile is_ident_char cs) of
           Inl e \<Rightarrow> Inl e
         | Inr r \<Rightarrow>
             (case replace_macros obc (dropWhile is_ident_char cs) of
                Inl e \<Rightarrow> Inl e
              | Inr t \<Rightarrow> Inr (r @ t)))
      else
        (case replace_macros obc cs of
           Inl e \<Rightarrow> Inl e
         | Inr t \<Rightarrow> Inr (c # t)))"

subsection \<open>The placeholder pass\<close>

text \<open>
  \<^verbatim>\<open>paramName in options.params\<close> and \<^verbatim>\<open>options.params[paramName]\<close>: an own
  property shadows an inherited one.
\<close>

definition get_property :: "'v SQParams \<Rightarrow> string \<Rightarrow> 'v option" where
  "get_property params k =
     (case own_props params k of Some v \<Rightarrow> Some v | None \<Rightarrow> inherited_props params k)"

text \<open>
  \<^verbatim>\<open>finalQuery.replace(/\?([a-zA-Z_][a-zA-Z0-9_]*)/g, callback)\<close>. The result is
  the new text with the values pushed onto \<^verbatim>\<open>paramsOut\<close>, in the order of the
  pushes; \<open>seenParams\<close> is the set of names met so far.
\<close>

fun replace_params ::
  "'v SQParams \<Rightarrow> string list \<Rightarrow> string \<Rightarrow> error + (string \<times> 'v list)" where
  "replace_params params seenParams [] = Inr ([], [])"
| "replace_params params seenParams (c # cs) =
     (if c = CHR ''?'' \<and> cs \<noteq> [] \<and> is_ident_start (hd cs) then
        (case get_property params (takeWhile is_ident_char cs) of
           None \<Rightarrow> Inl (SQLBuildError (''Missing parameter: '' @ takeWhile is_ident_char cs))
         | Some v \<Rightarrow>
             if takeWhile is_ident_char cs \<in> set seenParams then
               (case replace_params params seenParams (dropWhile is_ident_char cs) of
                  Inl e \<Rightarrow> Inl e
                | Inr (t, ps) \<Rightarrow> Inr (CHR ''?'' # t, v # ps))
             else
               (case replace_params params (takeWhile is_ident_char cs # seenParams)
                       (dropWhile is_ident_char cs) of
                  Inl e \<Rightarrow> Inl e
                | Inr (t, ps) \<Rightarrow> Inr (CHR ''?'' # t, v # ps)))
      else
        (case replace_params params seenParams cs of
           Inl e \<Rightarrow> Inl e
         | Inr (t, ps) \<Rightarrow> Inr (c # t, ps)))"

section \<open>The composer\<close>

record 'v BuildResult =
  r_query :: string
  r_params :: "'v list"

text \<open>
  The FROM clause: \<^verbatim>\<open>if (query.sourceTable) ... else if (query.sourceQuery) ... else
  throw\<close>.
\<close>

definition buildFromClause :: "SQLQuery \<Rightarrow> error + string" where
  "buildFromClause query =
     (if truthy (q_sourceTable query) then
        Inr (''FROM '' @ sanitizeIdentifier (text_of (q_sourceTable query)) @ '' AS ''
               @ sanitizeIdentifier (q_alias query))
      else if truthy (q_sourceQuery query) then
        Inr (''FROM ('' @ text_of (q_sourceQuery query) @ '') AS ''
               @ sanitizeIdentifier (q_alias query))
      else Inl (SQLBuildError ''Either sourceTable or sourceQuery must be provided''))"

text \<open>
  The WHERE clause. The outer test reads \<^verbatim>\<open>options.where\<close> as it is, the inner one
  reads it trimmed.
\<close>

definition buildWhereClause :: "SQLQuery \<Rightarrow> 'v BuildComplexSQLParams option \<Rightarrow> string" where
  "buildWhereClause query options =
     (if truthy (q_where query) \<or> truthy (Option.bind options o_where) then
        ''WHERE '' @ join '' AND ''
          ((if truthy (q_where query) then [''('' @ text_of (q_where query) @ '')''] else [])
           @
           (if truthy (Option.bind options o_where)
               \<and> trim (text_of (Option.bind options o_where)) \<noteq> []
            then [''('' @ text_of (Option.bind options o_where) @ '')'']
            else []))
      else [])"

text \<open>\<^verbatim>\<open>options?.order_by?.join(", ")\<close>.\<close>

definition orderByCondition :: "'v BuildComplexSQLParams option \<Rightarrow> string option" where
  "orderByCondition options = map_option (join '', '') (Option.bind options o_order_by)"

definition orderByClause :: "'v BuildComplexSQLParams option \<Rightarrow> string" where
  "orderByClause options =
     (case Option.bind options o_order_by of
        Some ob \<Rightarrow> if length ob \<noteq> 0 then ''ORDER BY '' @ join '', '' ob else []
      | None \<Rightarrow> [])"

definition limitClause :: "'v BuildComplexSQLParams option \<Rightarrow> string" where
  "limitClause options =
     (case Option.bind options o_page_size of
        Some n \<Rightarrow> if n \<noteq> 0 then ''LIMIT '' @ show_int n else []
      | None \<Rightarrow> [])"

definition offsetClause :: "'v BuildComplexSQLParams option \<Rightarrow> string" where
  "offsetClause options =
     (case Option.bind options o_page of
        Some p \<Rightarrow>
          (case Option.bind options o_page_size of
             Some n \<Rightarrow> ''OFFSET '' @ show_int (p * n)
           | None \<Rightarrow> [])
      | None \<Rightarrow> [])"

text \<open>
  The clauses joined by single spaces, the empty ones dropped: the value of
  \<^verbatim>\<open>finalQuery\<close> before the substitution.
\<close>

definition assemble :: "SQLQuery \<Rightarrow> 'v BuildComplexSQLParams option \<Rightarrow> error + string" where
  "assemble query options =
     (case buildFromClause query of
        Inl e \<Rightarrow> Inl e
      | Inr fromClause \<Rightarrow>
          Inr (join '' ''
                 (filter (\<lambda>clause. clause \<noteq> [])
                    [case q_withSubqueries query of Some ss \<Rightarrow> buildWithClause ss | None \<Rightarrow> [],
                     buildSelectClause query options,
                     fromClause,
                     case q_withSubqueries query of Some ss \<Rightarrow> buildJoinClauses ss | None \<Rightarrow> [],
                     buildWhereClause query options,
                     orderByClause options,
                     limitClause options,
                     offsetClause options])))"

text \<open>
  The block under \<^verbatim>\<open>if (options?.params)\<close>: the macro pass, then the placeholder
  pass on its result. Without a parameter object the text is returned as it is.
\<close>

definition substitute ::
  "'v BuildComplexSQLParams option \<Rightarrow> string \<Rightarrow> error + 'v BuildResult" where
  "substitute options finalQuery =
     (case Option.bind options o_params of
        None \<Rightarrow> Inr \<lparr>r_query = finalQuery, r_params = []\<rparr>
      | Some params \<Rightarrow>
          (case replace_macros (orderByCondition options) finalQuery of
             Inl e \<Rightarrow> Inl e
           | Inr expanded \<Rightarrow>
               (case replace_params params [] expanded of
                  Inl e \<Rightarrow> Inl e
                | Inr (t, ps) \<Rightarrow> Inr \<lparr>r_query = t, r_params = ps\<rparr>)))"

text \<open>
  The \<^verbatim>\<open>catch\<close> of \<^verbatim>\<open>buildComplexSQL\<close>: an \<^verbatim>\<open>SQLBuildError\<close> is thrown
  again, any other error is wrapped.
\<close>

definition rethrow :: "error + 'a \<Rightarrow> error + 'a" where
  "rethrow r =
     (case r of
        Inl (Error m) \<Rightarrow> Inl (SQLBuildError (''Failed to build SQL query: '' @ m))
      | _ \<Rightarrow> r)"

definition buildComplexSQL ::
  "SQLQuery \<Rightarrow> 'v BuildComplexSQLParams option \<Rightarrow> error + 'v BuildResult" where
  "buildComplexSQL query options =
     rethrow
       (case validateInputs query options of
          Inl e \<Rightarrow> Inl e
        | Inr _ \<Rightarrow>
            (case assemble query options of
               Inl e \<Rightarrow> Inl e
             | Inr finalQuery \<Rightarrow> substitute options finalQuery))"

section \<open>Pagination of the rows\<close>

text \<open>
  A row is any record that extends \<^verbatim>\<open>Pagination\<close>, whose two fields are numbers
  or \<^verbatim>\<open>undefined\<close>.
\<close>

record Pagination =
  sql_util_remaining :: "int option"
  sql_util_num :: "int option"

record PaginateArgs =
  a_page :: "int option"
  a_limit :: "int option"

record PageInfo =
  p_page :: int
  p_limit :: int
  p_total :: int
  p_has_more :: bool

record 'row Paginated =
  pg_data :: "'row list"
  pg_pagination :: PageInfo

definition paginateData ::
  "'a Pagination_scheme list \<Rightarrow> PaginateArgs \<Rightarrow> error + 'a Pagination_scheme Paginated" where
  "paginateData d args =
     (let page = (case a_page args of None \<Rightarrow> 0 | Some p \<Rightarrow> p);
          limit = (case a_limit args of None \<Rightarrow> 10 | Some l \<Rightarrow> l)
      in case d of
           [] \<Rightarrow>
             Inr \<lparr>pg_data = [],
                  pg_pagination = \<lparr>p_page = page, p_limit = limit, p_total = 0, p_has_more = False\<rparr>\<rparr>
         | first # _ \<Rightarrow>
             (case (sql_util_remaining first, sql_util_num first) of
                (Some remaining, Some num) \<Rightarrow>
                  Inr \<lparr>pg_data = d,
                       pg_pagination =
                         \<lparr>p_page = page, p_limit = limit, p_total = remaining + num,
                          p_has_more =
                            (case sql_util_remaining (last d) of
                               Some r \<Rightarrow> r > 0
                             | None \<Rightarrow> False)\<rparr>\<rparr>
              | _ \<Rightarrow> Inl (Error ''order_by, page, and page_size are required for pagination'')))"

section \<open>The variant of sql.ts\<close>

text \<open>
  The file \<^verbatim>\<open>sql.ts\<close> holds an earlier copy of the builder, without view
  dependencies, window-count columns and macros. Its functions carry the suffix
  \<open>_sql\<close>; \<^verbatim>\<open>sanitizeIdentifier\<close>, \<^verbatim>\<open>buildJoinClauses\<close>, the loop over the
  subqueries and the clauses built inside \<^verbatim>\<open>buildComplexSQL\<close> have the same text in
  both files and are shared. Its validator differs in the test of the source.
\<close>

definition validateInputs_sql ::
  "SQLQuery \<Rightarrow> 'v BuildComplexSQLParams option \<Rightarrow> error + unit" where
  "validateInputs_sql query options =
     (if \<not> truthy (q_sourceQuery query) \<and> \<not> truthy (q_sourceTable query)
      then (if \<not> truthy (q_sourceTable query)
            then Inl (SQLBuildError ''sourceQuery is required and must be a string'')
            else Inl (SQLBuildError ''sourceTable is required and must be a string''))
      else if q_alias query = []
      then Inl (SQLBuildError ''alias is required and must be a string'')
      else if q_fields query = []
      then Inl (SQLBuildError ''fields must contain at least one field definition'')
      else if (case Option.bind options o_page of None \<Rightarrow> False | Some p \<Rightarrow> p < 0)
      then Inl (SQLBuildError ''page must be a positive number'')
      else if (case Option.bind options o_page_size of None \<Rightarrow> False | Some n \<Rightarrow> n \<le> 0)
      then Inl (SQLBuildError ''page_size must be a positive number'')
      else (case q_withSubqueries query of
              None \<Rightarrow> Inr ()
            | Some subqueries \<Rightarrow> validateSubqueries subqueries))"

definition buildWithClause_sql :: "WithSubquerySQL list \<Rightarrow> string" where
  "buildWithClause_sql subqueries =
     (if subqueries = [] then []
      else ''WITH '' @ join '', ''
             (map (\<lambda>subquery.
                     sanitizeIdentifier (sq_name subquery) @ '' AS ('' @ trim (sq_query subquery) @ '')'')
                  subqueries))"

definition buildSelectClause_sql :: "SQLQuery \<Rightarrow> string" where
  "buildSelectClause_sql query =
     (let mainFields = map render_field (q_fields query);
          subqueryFields =
            concat (map (\<lambda>subquery. map render_field (sq_fields subquery))
                        (case q_withSubqueries query of None \<Rightarrow> [] | Some ss \<Rightarrow> ss));
          allFields = mainFields @ subqueryFields
      in ''SELECT '' @ join '', '' allFields)"

definition assemble_sql :: "SQLQuery \<Rightarrow> 'v BuildComplexSQLParams option \<Rightarrow> error + string" where
  "assemble_sql query options =
     (case buildFromClause query of
        Inl e \<Rightarrow> Inl e
      | Inr fromClause \<Rightarrow>
          Inr (join '' ''
                 (filter (\<lambda>clause. clause \<noteq> [])
                    [case q_withSubqueries query of Some ss \<Rightarrow> buildWithClause_sql ss | None \<Rightarrow> [],
                     buildSelectClause_sql query,
                     fromClause,
                     case q_withSubqueries query of Some ss \<Rightarrow> buildJoinClauses ss | None \<Rightarrow> [],
                     buildWhereClause query options,
                     orderByClause options,
                     limitClause options,
                     offsetClause options])))"

definition substitute_sql ::
  "'v BuildComplexSQLParams option \<Rightarrow> string \<Rightarrow> error + 'v BuildResult" where
  "substitute_sql options finalQuery =
     (case Option.bind options o_params of
        None \<Rightarrow> Inr \<lparr>r_query = finalQuery, r_params = []\<rparr>
      | Some params \<Rightarrow>
          (case replace_params params [] finalQuery of
             Inl e \<Rightarrow> Inl e
           | Inr (t, ps) \<Rightarrow> Inr \<lparr>r_query = t, r_params = ps\<rparr>))"

definition buildComplexSQL_sql ::
  "SQLQuery \<Rightarrow> 'v BuildComplexSQLParams option \<Rightarrow> error + 'v BuildResult" where
  "buildComplexSQL_sql query options =
     rethrow
       (case validateInputs_sql query options of
          Inl e \<Rightarrow> Inl e
        | Inr _ \<Rightarrow>
            (case assemble_sql query options of
               Inl e \<Rightarrow> Inl e
             | Inr finalQuery \<Rightarrow> substitute_sql options finalQuery))"


section \<open>Notions used in the statements\<close>

subsection \<open>Placeholder tokens of a text\<close>

text \<open>
  The names of the tokens \<^verbatim>\<open>?identifier\<close> of a text, from left to right, and the
  text with each of these tokens replaced by a single question mark.
\<close>

fun placeholders :: "string \<Rightarrow> string list" where
  "placeholders [] = []"
| "placeholders (c # cs) =
     (if c = CHR ''?'' \<and> cs \<noteq> [] \<and> is_ident_start (hd cs)
      then takeWhile is_ident_char cs # placeholders (dropWhile is_ident_char cs)
      else placeholders cs)"

fun blank_placeholders :: "string \<Rightarrow> string" where
  "blank_placeholders [] = []"
| "blank_placeholders (c # cs) =
     (if c = CHR ''?'' \<and> cs \<noteq> [] \<and> is_ident_start (hd cs)
      then CHR ''?'' # blank_placeholders (dropWhile is_ident_char cs)
      else c # blank_placeholders cs)"


subsection \<open>The preconditions of a request, in the order of their checks\<close>

datatype precondition =
  SourcePresent | AliasPresent | FieldsPresent | PageNonNegative | PageSizePositive
  | SubqueriesValid

definition subquery_complete :: "WithSubquerySQL \<Rightarrow> bool" where
  "subquery_complete s \<longleftrightarrow>
     sq_name s \<noteq> [] \<and> sq_alias s \<noteq> [] \<and> sq_query s \<noteq> [] \<and> sq_joinType s \<noteq> []
     \<and> sq_joinOn s \<noteq> []"

definition join_kind_allowed :: "WithSubquerySQL \<Rightarrow> bool" where
  "join_kind_allowed s \<longleftrightarrow> sq_joinType s = ''JOIN'' \<or> sq_joinType s = ''LEFT JOIN''"

definition subquery_valid :: "WithSubquerySQL \<Rightarrow> bool" where
  "subquery_valid s \<longleftrightarrow> subquery_complete s \<and> join_kind_allowed s"

fun holds :: "precondition \<Rightarrow> SQLQuery \<Rightarrow> 'v BuildComplexSQLParams option \<Rightarrow> bool" where
  "holds SourcePresent query options =
     (truthy (q_sourceTable query) \<or> truthy (q_sourceQuery query))"
| "holds AliasPresent query options = (q_alias query \<noteq> [])"
| "holds FieldsPresent query options = (q_fields query \<noteq> [])"
| "holds PageNonNegative query options =
     (case Option.bind options o_page of None \<Rightarrow> True | Some p \<Rightarrow> 0 \<le> p)"
| "holds PageSizePositive query options =
     (case Option.bind options o_page_size of None \<Rightarrow> True | Some n \<Rightarrow> 0 < n)"
| "holds SubqueriesValid query options =
     (case q_withSubqueries query of None \<Rightarrow> True | Some ss \<Rightarrow> list_all subquery_valid ss)"

definition check_order :: "precondition list" where
  "check_order =
     [SourcePresent, AliasPresent, FieldsPresent, PageNonNegative, PageSizePositive,
      SubqueriesValid]"

definition first_violation ::
  "SQLQuery \<Rightarrow> 'v BuildComplexSQLParams option \<Rightarrow> precondition option" where
  "first_violation query options = find (\<lambda>p. \<not> holds p query options) check_order"

fun violation_message :: "precondition \<Rightarrow> SQLQuery \<Rightarrow> string" where
  "violation_message SourcePresent query = ''sourceTable is required and must be a string''"
| "violation_message AliasPresent query = ''alias is required and must be a string''"
| "violation_message FieldsPresent query =
     ''fields must contain at least one field definition''"
| "violation_message PageNonNegative query = ''page must be a positive number''"
| "violation_message PageSizePositive query = ''page_size must be a positive number''"
| "violation_message SubqueriesValid query =
     (case find (\<lambda>s. \<not> subquery_valid s)
             (case q_withSubqueries query of None \<Rightarrow> [] | Some ss \<Rightarrow> ss) of
        None \<Rightarrow> []
      | Some s \<Rightarrow>
          if \<not> subquery_complete s
          then ''Invalid subquery configuration: missing required fields''
          else ''Invalid join type: '' @ sq_joinType s)"

fun violation_message_sql :: "precondition \<Rightarrow> SQLQuery \<Rightarrow> string" where
  "violation_message_sql SourcePresent query = ''sourceQuery is required and must be a string''"
| "violation_message_sql p query = violation_message p query"


subsection \<open>The select list\<close>

text \<open>
  The fields of the main query followed by the fields of the subqueries, each as
  \<^verbatim>\<open>expression AS name\<close>; the two window-count columns; and when they are asked for.
\<close>

definition window_columns_requested :: "'v BuildComplexSQLParams option \<Rightarrow> bool" where
  "window_columns_requested options \<longleftrightarrow>
     (case options of
        None \<Rightarrow> False
      | Some opts \<Rightarrow>
          (case o_order_by opts of None \<Rightarrow> False | Some terms \<Rightarrow> 1 < length terms)
          \<and> o_page opts \<noteq> None \<and> o_page_size opts \<noteq> None)"

definition selected_fields :: "SQLQuery \<Rightarrow> string list" where
  "selected_fields query =
     map render_field (q_fields query)
     @ concat (map (\<lambda>s. map render_field (sq_fields s))
                   (case q_withSubqueries query of None \<Rightarrow> [] | Some ss \<Rightarrow> ss))"

definition window_columns :: "string \<Rightarrow> string list" where
  "window_columns alias =
     [''COUNT('' @ alias @ ''.id) OVER (ORDER BY $rev_order_by) - 1 AS _sql_util_remaining'',
      ''COUNT('' @ alias @ ''.id) OVER (ORDER BY $order_by) AS _sql_util_num'']"


subsection \<open>The views that a subquery names directly\<close>

definition direct_keys :: "WithSubquerySQL \<Rightarrow> string set" where
  "direct_keys s = (case sq_dependsOn s of None \<Rightarrow> {} | Some d \<Rightarrow> fst ` set d)"


subsection \<open>Substrings\<close>




subsection \<open>Example requests\<close>

text \<open>
  The query of the repository's tests; values of parameters; options that set nothing;
  the parameter object that an object literal with the given properties creates, which
  inherits the functions of \<^verbatim>\<open>Object.prototype\<close>; and two subqueries whose view
  dependencies share the view \<^verbatim>\<open>active_users\<close>: one names it directly, the other
  reaches it through \<^verbatim>\<open>user_posts\<close>.
\<close>

definition users_query :: SQLQuery where
  "users_query =
     \<lparr>q_sourceTable = Some ''users'', q_sourceQuery = None, q_alias = ''u'',
      q_fields = [(''id'', ''u.id''), (''name'', ''u.name'')], q_where = None,
      q_withSubqueries = None\<rparr>"

datatype jsvalue = JNumber int | JString string | JFunction string

definition no_options :: "jsvalue BuildComplexSQLParams" where
  "no_options =
     \<lparr>o_where = None, o_params = None, o_page = None, o_page_size = None, o_order_by = None\<rparr>"

definition object_prototype_names :: "string list" where
  "object_prototype_names =
     [''constructor'', ''hasOwnProperty'', ''isPrototypeOf'', ''propertyIsEnumerable'',
      ''toLocaleString'', ''toString'', ''valueOf'']"

definition object_literal :: "(string \<times> jsvalue) list \<Rightarrow> jsvalue SQParams" where
  "object_literal kvs =
     \<lparr>own_props = map_of kvs,
      inherited_props = map_of (map (\<lambda>n. (n, JFunction n)) object_prototype_names)\<rparr>"

definition active_users :: SQLQueryView where
  "active_users = SQLQueryView ''active_users'' ''SELECT id FROM users WHERE active'' None"

definition user_posts :: SQLQueryView where
  "user_posts =
     SQLQueryView ''user_posts'' ''SELECT p.user_id FROM posts p JOIN active_users a ON a.id = p.user_id''
       (Some [(''active_users'', active_users)])"

definition posts_component :: WithSubquerySQL where
  "posts_component =
     \<lparr>sq_name = ''post_counts'', sq_alias = ''pc'',
      sq_query = ''SELECT user_id, COUNT(*) AS n FROM user_posts GROUP BY user_id'',
      sq_joinType = ''LEFT JOIN'', sq_joinOn = ''u.id = pc.user_id'',
      sq_fields = [(''posts'', ''pc.n'')],
      sq_dependsOn = Some [(''user_posts'', user_posts)]\<rparr>"

definition active_component :: WithSubquerySQL where
  "active_component =
     \<lparr>sq_name = ''active'', sq_alias = ''au'',
      sq_query = ''SELECT id FROM active_users'',
      sq_joinType = ''JOIN'', sq_joinOn = ''u.id = au.id'',
      sq_fields = [(''active_id'', ''au.id'')],
      sq_dependsOn = Some [(''active_users'', active_users)]\<rparr>"


section \<open>Properties of the scanners\<close>

lemma ident_start_is_char: "is_ident_start c \<Longrightarrow> is_ident_char c"
  by (auto simp: is_ident_start_def is_ident_char_def)

lemma not_ident_char_simps [simp]:
  "\<not> is_ident_char CHR '' ''" "\<not> is_ident_char CHR '')''" "\<not> is_ident_char CHR ''(''"
  "\<not> is_ident_char CHR ''$''" "\<not> is_ident_char CHR ''?''" "\<not> is_ident_char CHR '',''"
  by (simp_all add: is_ident_char_def is_lower_def is_upper_def is_digit_def)

lemma takeWhile_stop: "\<not> P c \<Longrightarrow> takeWhile P (xs @ c # ys) = takeWhile P xs"
  by (induction xs) auto

lemma dropWhile_stop: "\<not> P c \<Longrightarrow> dropWhile P (xs @ c # ys) = dropWhile P xs @ c # ys"
  by (induction xs) auto


subsection \<open>The macro pass\<close>

lemma replace_macros_plain: "CHR ''$'' \<notin> set s \<Longrightarrow> replace_macros obc s = Inr s"
  by (induction s) auto

lemma replace_macros_plain_prefix:
  "CHR ''$'' \<notin> set lit \<Longrightarrow>
   replace_macros obc (lit @ x) =
     (case replace_macros obc x of Inl e \<Rightarrow> Inl e | Inr t \<Rightarrow> Inr (lit @ t))"
  by (induction lit) (auto split: sum.splits)

lemma replace_macros_skip:
  "c \<noteq> CHR ''$'' \<Longrightarrow>
   replace_macros obc (c # b) =
     (case replace_macros obc b of Inl e \<Rightarrow> Inl e | Inr t \<Rightarrow> Inr (c # t))"
  by simp

lemma replace_macros_split:
  "\<not> is_ident_char c \<Longrightarrow>
   replace_macros obc (a @ c # b) =
     (case replace_macros obc a of
        Inl e \<Rightarrow> Inl e
      | Inr a' \<Rightarrow>
          (case replace_macros obc (c # b) of Inl e \<Rightarrow> Inl e | Inr b' \<Rightarrow> Inr (a' @ b')))"
proof (induction obc a rule: replace_macros.induct)
  case (1 obc)
  show ?case by (cases "replace_macros obc (c # b)") simp_all
next
  case (2 obc x xs)
  show ?case
  proof (cases "x = CHR ''$'' \<and> xs \<noteq> [] \<and> is_ident_start (hd xs)")
    case True
    then have hd: "xs @ c # b \<noteq> []" "hd (xs @ c # b) = hd xs" by auto
    have L: "replace_macros obc ((x # xs) @ c # b) =
       (case macro_callback obc (takeWhile is_ident_char xs) of
          Inl e \<Rightarrow> Inl e
        | Inr r \<Rightarrow>
            (case replace_macros obc (dropWhile is_ident_char xs @ c # b) of
               Inl e \<Rightarrow> Inl e
             | Inr t \<Rightarrow> Inr (r @ t)))"
      using True hd 2(3) by (simp add: takeWhile_stop dropWhile_stop cong: sum.case_cong)
    have R: "replace_macros obc (x # xs) =
       (case macro_callback obc (takeWhile is_ident_char xs) of
          Inl e \<Rightarrow> Inl e
        | Inr r \<Rightarrow>
            (case replace_macros obc (dropWhile is_ident_char xs) of
               Inl e \<Rightarrow> Inl e
             | Inr t \<Rightarrow> Inr (r @ t)))"
      using True by simp
    show ?thesis
    proof (cases "macro_callback obc (takeWhile is_ident_char xs)")
      case (Inl e)
      then show ?thesis unfolding L R by simp
    next
      case (Inr r)
      note IH = 2(1)[OF True Inr 2(3)]
      show ?thesis
        unfolding L R IH Inr
        by (cases "replace_macros obc (dropWhile is_ident_char xs)";
            cases "replace_macros obc (c # b)") (simp_all del: replace_macros.simps)
    qed
  next
    case False
    have F': "\<not> (x = CHR ''$'' \<and> xs @ c # b \<noteq> [] \<and> is_ident_start (hd (xs @ c # b)))"
      using False 2(3) ident_start_is_char by (cases xs) auto
    have L: "replace_macros obc ((x # xs) @ c # b) =
       (case replace_macros obc (xs @ c # b) of Inl e \<Rightarrow> Inl e | Inr t \<Rightarrow> Inr (x # t))"
      using F' by auto
    have R: "replace_macros obc (x # xs) =
       (case replace_macros obc xs of Inl e \<Rightarrow> Inl e | Inr t \<Rightarrow> Inr (x # t))"
      using False by auto
    note IH = 2(2)[OF False 2(3)]
    show ?thesis
      unfolding L R IH
      by (cases "replace_macros obc xs"; cases "replace_macros obc (c # b)")
         (simp_all del: replace_macros.simps)
  qed
qed

lemma replace_macros_append:
  assumes "post = [] \<or> \<not> is_ident_char (hd post)"
  shows "replace_macros obc (a @ post) =
     (case replace_macros obc a of
        Inl e \<Rightarrow> Inl e
      | Inr a' \<Rightarrow>
          (case replace_macros obc post of Inl e \<Rightarrow> Inl e | Inr b' \<Rightarrow> Inr (a' @ b')))"
proof (cases post)
  case Nil
  then show ?thesis by (cases "replace_macros obc a") simp_all
next
  case (Cons c b)
  then have "\<not> is_ident_char c" using assms by simp
  then show ?thesis unfolding Cons by (rule replace_macros_split)
qed

lemma replace_macros_token:
  assumes "name \<noteq> []" "is_ident_start (hd name)" "list_all is_ident_char name"
    and "post = [] \<or> \<not> is_ident_char (hd post)"
  shows "replace_macros obc (CHR ''$'' # name @ post) =
     (case macro_callback obc name of
        Inl e \<Rightarrow> Inl e
      | Inr r \<Rightarrow>
          (case replace_macros obc post of Inl e \<Rightarrow> Inl e | Inr t \<Rightarrow> Inr (r @ t)))"
proof -
  have tw: "takeWhile is_ident_char (name @ post) = name"
    using assms(3,4) by (cases post) (auto simp: list_all_iff)
  have dw: "dropWhile is_ident_char (name @ post) = post"
    using assms(3,4) by (cases post) (auto simp: list_all_iff)
  have "name @ post \<noteq> []" "hd (name @ post) = hd name" using assms(1) by auto
  then show ?thesis using assms(2) by (simp add: tw dw cong: sum.case_cong)
qed

lemma macro_order_by:
  "obc \<noteq> [] \<Longrightarrow> macro_callback (Some obc) ''order_by'' = Inr obc"
  "obc \<noteq> [] \<Longrightarrow> macro_callback (Some obc) ''rev_order_by'' = Inr (rev_order obc)"
  by (simp_all add: macro_callback_def)

lemma macro_callback_other:
  "name \<noteq> ''order_by'' \<Longrightarrow> name \<noteq> ''rev_order_by'' \<Longrightarrow> macro_callback obc name = Inr []"
  by (simp add: macro_callback_def)

lemma macro_callback_error:
  "macro_callback obc name = Inl e \<Longrightarrow> e = SQLBuildError ''Missing order_by''"
  by (auto simp: macro_callback_def split: if_splits option.splits)

lemma macro_callback_falsy:
  "\<not> truthy obc \<Longrightarrow> macro_callback obc ''order_by'' = Inl (SQLBuildError ''Missing order_by'')"
  "\<not> truthy obc \<Longrightarrow> macro_callback obc ''rev_order_by'' = Inl (SQLBuildError ''Missing order_by'')"
  by (auto simp: macro_callback_def truthy_def split: option.splits)

lemma replace_macros_error:
  "replace_macros obc s = Inl e \<Longrightarrow> e = SQLBuildError ''Missing order_by''"
proof (induction obc s rule: replace_macros.induct)
  case (1 obc)
  then show ?case by simp
next
  case (2 obc c cs)
  show ?case
  proof (cases "c = CHR ''$'' \<and> cs \<noteq> [] \<and> is_ident_start (hd cs)")
    case True
    show ?thesis
    proof (cases "macro_callback obc (takeWhile is_ident_char cs)")
      case (Inl e')
      with True 2(3) have "e = e'" by simp
      with Inl show ?thesis by (simp add: macro_callback_error)
    next
      case (Inr r)
      with True 2(3) have "replace_macros obc (dropWhile is_ident_char cs) = Inl e"
        by (auto split: sum.splits)
      with 2(1)[OF True Inr] show ?thesis .
    qed
  next
    case False
    with 2(3) have "replace_macros obc cs = Inl e" by (auto split: sum.splits)
    with 2(2)[OF False] show ?thesis .
  qed
qed

lemma replace_macros_delete_token:
  assumes "name \<noteq> []" "is_ident_start (hd name)" "list_all is_ident_char name"
    and "name \<noteq> ''order_by''" "name \<noteq> ''rev_order_by''"
    and "post = [] \<or> \<not> is_ident_char (hd post)"
  shows "replace_macros obc (pre @ CHR ''$'' # name @ post) = replace_macros obc (pre @ post)"
proof -
  have tok: "replace_macros obc (CHR ''$'' # name @ post) = replace_macros obc post"
    unfolding replace_macros_token[OF assms(1,2,3,6)] macro_callback_other[OF assms(4,5)]
    by (cases "replace_macros obc post") simp_all
  have "replace_macros obc (pre @ CHR ''$'' # name @ post) =
     (case replace_macros obc pre of
        Inl e \<Rightarrow> Inl e
      | Inr a' \<Rightarrow>
          (case replace_macros obc (CHR ''$'' # name @ post) of
             Inl e \<Rightarrow> Inl e | Inr b' \<Rightarrow> Inr (a' @ b')))"
    by (rule replace_macros_split) simp
  then show ?thesis
    unfolding tok replace_macros_append[OF assms(6), of obc pre] .
qed

lemma macro_token_fails:
  assumes "macro_callback obc name = Inl (SQLBuildError ''Missing order_by'')"
    and "name \<noteq> []" "is_ident_start (hd name)" "list_all is_ident_char name"
    and "post = [] \<or> \<not> is_ident_char (hd post)"
  shows "replace_macros obc (pre @ CHR ''$'' # name @ post) = Inl (SQLBuildError ''Missing order_by'')"
proof -
  have tok: "replace_macros obc (CHR ''$'' # name @ post) = Inl (SQLBuildError ''Missing order_by'')"
    unfolding replace_macros_token[OF assms(2,3,4,5)] assms(1) by simp
  have split: "replace_macros obc (pre @ CHR ''$'' # name @ post) =
     (case replace_macros obc pre of
        Inl e \<Rightarrow> Inl e
      | Inr a' \<Rightarrow>
          (case replace_macros obc (CHR ''$'' # name @ post) of
             Inl e \<Rightarrow> Inl e | Inr b' \<Rightarrow> Inr (a' @ b')))"
    by (rule replace_macros_split) simp
  show ?thesis
  proof (cases "replace_macros obc pre")
    case (Inl e)
    with replace_macros_error[OF Inl] show ?thesis unfolding split by simp
  next
    case (Inr a)
    then show ?thesis unfolding split tok by simp
  qed
qed

lemma macro_token_replaced:
  assumes "macro_callback obc name = Inr r"
    and "name \<noteq> []" "is_ident_start (hd name)" "list_all is_ident_char name"
    and "post = [] \<or> \<not> is_ident_char (hd post)"
  shows "replace_macros obc (pre @ CHR ''$'' # name @ post) =
     (case replace_macros obc pre of
        Inl e \<Rightarrow> Inl e
      | Inr a \<Rightarrow>
          (case replace_macros obc post of Inl e \<Rightarrow> Inl e | Inr b \<Rightarrow> Inr (a @ r @ b)))"
proof -
  have tok: "replace_macros obc (CHR ''$'' # name @ post) =
      (case replace_macros obc post of Inl e \<Rightarrow> Inl e | Inr t \<Rightarrow> Inr (r @ t))"
    unfolding replace_macros_token[OF assms(2,3,4,5)] assms(1) by simp
  have split: "replace_macros obc (pre @ CHR ''$'' # name @ post) =
     (case replace_macros obc pre of
        Inl e \<Rightarrow> Inl e
      | Inr a' \<Rightarrow>
          (case replace_macros obc (CHR ''$'' # name @ post) of
             Inl e \<Rightarrow> Inl e | Inr b' \<Rightarrow> Inr (a' @ b')))"
    by (rule replace_macros_split) simp
  show ?thesis
    unfolding split tok
    by (cases "replace_macros obc pre"; cases "replace_macros obc post") simp_all
qed

lemma window_column_remaining:
  assumes "obc \<noteq> []" "CHR ''$'' \<notin> set alias"
  shows "replace_macros (Some obc)
           (''COUNT('' @ alias @ ''.id) OVER (ORDER BY $rev_order_by) - 1 AS _sql_util_remaining'')
         = Inr (''COUNT('' @ alias @ ''.id) OVER (ORDER BY '' @ rev_order obc
                @ '') - 1 AS _sql_util_remaining'')"
proof -
  have pre: "CHR ''$'' \<notin> set (''COUNT('' @ alias @ ''.id) OVER (ORDER BY '')"
    using assms(2) by simp
  have post: "replace_macros (Some obc) '') - 1 AS _sql_util_remaining''
              = Inr '') - 1 AS _sql_util_remaining''"
    by (rule replace_macros_plain) simp
  have tok: "replace_macros (Some obc) (CHR ''$'' # ''rev_order_by'' @ '') - 1 AS _sql_util_remaining'')
             = Inr (rev_order obc @ '') - 1 AS _sql_util_remaining'')"
    by (subst replace_macros_token)
       (simp_all add: macro_order_by[OF assms(1)] post is_ident_start_def is_ident_char_def
          is_lower_def is_upper_def is_digit_def del: replace_macros.simps)
  have "replace_macros (Some obc)
          ((''COUNT('' @ alias @ ''.id) OVER (ORDER BY '') @
           (CHR ''$'' # ''rev_order_by'' @ '') - 1 AS _sql_util_remaining''))
        = Inr ((''COUNT('' @ alias @ ''.id) OVER (ORDER BY '') @
               rev_order obc @ '') - 1 AS _sql_util_remaining'')"
    unfolding replace_macros_plain_prefix[OF pre] tok by simp
  then show ?thesis by simp
qed

lemma window_column_num:
  assumes "obc \<noteq> []" "CHR ''$'' \<notin> set alias"
  shows "replace_macros (Some obc)
           (''COUNT('' @ alias @ ''.id) OVER (ORDER BY $order_by) AS _sql_util_num'')
         = Inr (''COUNT('' @ alias @ ''.id) OVER (ORDER BY '' @ obc @ '') AS _sql_util_num'')"
proof -
  have pre: "CHR ''$'' \<notin> set (''COUNT('' @ alias @ ''.id) OVER (ORDER BY '')"
    using assms(2) by simp
  have post: "replace_macros (Some obc) '') AS _sql_util_num'' = Inr '') AS _sql_util_num''"
    by (rule replace_macros_plain) simp
  have tok: "replace_macros (Some obc) (CHR ''$'' # ''order_by'' @ '') AS _sql_util_num'')
             = Inr (obc @ '') AS _sql_util_num'')"
    by (subst replace_macros_token)
       (simp_all add: macro_order_by[OF assms(1)] post is_ident_start_def is_ident_char_def
          is_lower_def is_upper_def is_digit_def del: replace_macros.simps)
  have "replace_macros (Some obc)
          ((''COUNT('' @ alias @ ''.id) OVER (ORDER BY '') @
           (CHR ''$'' # ''order_by'' @ '') AS _sql_util_num''))
        = Inr ((''COUNT('' @ alias @ ''.id) OVER (ORDER BY '') @ obc @ '') AS _sql_util_num'')"
    unfolding replace_macros_plain_prefix[OF pre] tok by simp
  then show ?thesis by simp
qed


subsection \<open>The placeholder pass\<close>

lemma replace_params_char:
  "replace_params P seen s =
     (case find (\<lambda>n. get_property P n = None) (placeholders s) of
        Some n \<Rightarrow> Inl (SQLBuildError (''Missing parameter: '' @ n))
      | None \<Rightarrow> Inr (blank_placeholders s, map (\<lambda>n. the (get_property P n)) (placeholders s)))"
proof (induction P seen s rule: replace_params.induct)
  case (1 params seenParams)
  show ?case by simp
next
  case (2 params seenParams c cs)
  show ?case
  proof (cases "c = CHR ''?'' \<and> cs \<noteq> [] \<and> is_ident_start (hd cs)")
    case True
    show ?thesis
    proof (cases "get_property params (takeWhile is_ident_char cs)")
      case None
      then show ?thesis using True by simp
    next
      case (Some v)
      show ?thesis
      proof (cases "takeWhile is_ident_char cs \<in> set seenParams")
        case seen: True
        show ?thesis
          using True Some seen 2(1)[OF True Some seen]
          by (simp split: option.splits)
      next
        case unseen: False
        show ?thesis
          using True Some unseen 2(2)[OF True Some unseen]
          by (simp split: option.splits)
      qed
    qed
  next
    case False
    show ?thesis
      using False 2(3)[OF False]
      by (auto split: option.splits)
  qed
qed

lemma placeholders_split:
  "\<not> is_ident_char c \<Longrightarrow> placeholders (a @ c # b) = placeholders a @ placeholders (c # b)"
proof (induction a rule: placeholders.induct)
  case 1
  show ?case by simp
next
  case (2 x xs)
  show ?case
  proof (cases "x = CHR ''?'' \<and> xs \<noteq> [] \<and> is_ident_start (hd xs)")
    case True
    then have hd: "xs @ c # b \<noteq> []" "hd (xs @ c # b) = hd xs" by auto
    have L: "placeholders ((x # xs) @ c # b) = takeWhile is_ident_char xs # placeholders (dropWhile is_ident_char xs @ c # b)"
      using True hd 2(3) by (simp add: takeWhile_stop dropWhile_stop)
    have R: "placeholders (x # xs) = takeWhile is_ident_char xs # placeholders (dropWhile is_ident_char xs)"
      using True by simp
    show ?thesis
      unfolding L R 2(1)[OF True 2(3)] by simp
  next
    case False
    have F': "\<not> (x = CHR ''?'' \<and> xs @ c # b \<noteq> [] \<and> is_ident_start (hd (xs @ c # b)))"
      using False 2(3) ident_start_is_char by (cases xs) auto
    have L: "placeholders ((x # xs) @ c # b) = placeholders (xs @ c # b)"
      using F' by auto
    have R: "placeholders (x # xs) = placeholders xs"
      using False by auto
    show ?thesis
      unfolding L R 2(2)[OF False 2(3)] by simp
  qed
qed

lemma blank_placeholders_split:
  "\<not> is_ident_char c \<Longrightarrow>
   blank_placeholders (a @ c # b) = blank_placeholders a @ blank_placeholders (c # b)"
proof (induction a rule: blank_placeholders.induct)
  case 1
  show ?case by simp
next
  case (2 x xs)
  show ?case
  proof (cases "x = CHR ''?'' \<and> xs \<noteq> [] \<and> is_ident_start (hd xs)")
    case True
    then have hd: "xs @ c # b \<noteq> []" "hd (xs @ c # b) = hd xs" by auto
    have L: "blank_placeholders ((x # xs) @ c # b) = CHR ''?'' # blank_placeholders (dropWhile is_ident_char xs @ c # b)"
      using True hd 2(3) by (simp add: takeWhile_stop dropWhile_stop)
    have R: "blank_placeholders (x # xs) = CHR ''?'' # blank_placeholders (dropWhile is_ident_char xs)"
      using True by simp
    show ?thesis
      unfolding L R 2(1)[OF True 2(3)] by simp
  next
    case False
    have F': "\<not> (x = CHR ''?'' \<and> xs @ c # b \<noteq> [] \<and> is_ident_start (hd (xs @ c # b)))"
      using False 2(3) ident_start_is_char by (cases xs) auto
    have L: "blank_placeholders ((x # xs) @ c # b) = x # blank_placeholders (xs @ c # b)"
      using F' by auto
    have R: "blank_placeholders (x # xs) = x # blank_placeholders xs"
      using False by auto
    show ?thesis
      unfolding L R 2(2)[OF False 2(3)] by simp
  qed
qed

lemma placeholders_append:
  assumes "post = [] \<or> \<not> is_ident_char (hd post)"
  shows "placeholders (a @ post) = placeholders a @ placeholders post"
    and "blank_placeholders (a @ post) = blank_placeholders a @ blank_placeholders post"
proof -
  show "placeholders (a @ post) = placeholders a @ placeholders post"
  proof (cases post)
    case Nil then show ?thesis by simp
  next
    case (Cons c b)
    then have "\<not> is_ident_char c" using assms by simp
    then show ?thesis unfolding Cons by (rule placeholders_split)
  qed
  show "blank_placeholders (a @ post) = blank_placeholders a @ blank_placeholders post"
  proof (cases post)
    case Nil then show ?thesis by simp
  next
    case (Cons c b)
    then have "\<not> is_ident_char c" using assms by simp
    then show ?thesis unfolding Cons by (rule blank_placeholders_split)
  qed
qed

lemma placeholders_plain: "CHR ''?'' \<notin> set s \<Longrightarrow> placeholders s = []"
  by (induction s) auto

lemma blank_placeholders_plain: "CHR ''?'' \<notin> set s \<Longrightarrow> blank_placeholders s = s"
  by (induction s) auto

lemma placeholders_plain_prefix:
  "CHR ''?'' \<notin> set lit \<Longrightarrow> placeholders (lit @ y) = placeholders y"
  "CHR ''?'' \<notin> set lit \<Longrightarrow> blank_placeholders (lit @ y) = lit @ blank_placeholders y"
  by (induction lit) auto

lemma placeholders_token:
  assumes "name \<noteq> []" "is_ident_start (hd name)" "list_all is_ident_char name"
    and "post = [] \<or> \<not> is_ident_char (hd post)"
  shows "placeholders (CHR ''?'' # name @ post) = name # placeholders post"
    and "blank_placeholders (CHR ''?'' # name @ post) = CHR ''?'' # blank_placeholders post"
proof -
  have tw: "takeWhile is_ident_char (name @ post) = name"
    using assms(3,4) by (cases post) (auto simp: list_all_iff)
  have dw: "dropWhile is_ident_char (name @ post) = post"
    using assms(3,4) by (cases post) (auto simp: list_all_iff)
  have "name @ post \<noteq> []" "hd (name @ post) = hd name" using assms(1) by auto
  then show "placeholders (CHR ''?'' # name @ post) = name # placeholders post"
    and "blank_placeholders (CHR ''?'' # name @ post) = CHR ''?'' # blank_placeholders post"
    using assms(2) by (simp_all add: tw dw)
qed

lemma find_None_all: "find Q xs = None \<Longrightarrow> x \<in> set xs \<Longrightarrow> \<not> Q x"
  by (induction xs) (auto split: if_splits)

lemma occurrences_values:
  "map Some ps = map f ns \<Longrightarrow> f name = Some v \<Longrightarrow>
   map snd (filter (\<lambda>(n, x). n = name) (zip ns ps)) = replicate (count_list ns name) v"
proof (induction ns arbitrary: ps)
  case Nil
  then show ?case by simp
next
  case (Cons n ns)
  then obtain p ps' where ps: "ps = p # ps'" by (cases ps) auto
  with Cons.prems have "Some p = f n" "map Some ps' = map f ns" by auto
  with Cons.IH[of ps'] Cons.prems(2) ps show ?case by auto
qed


subsection \<open>Numbers as text\<close>

lemma digit_chars:
  "char_of (48::nat) = CHR ''0''" "char_of (49::nat) = CHR ''1''" "char_of (50::nat) = CHR ''2''"
  "char_of (51::nat) = CHR ''3''" "char_of (52::nat) = CHR ''4''" "char_of (53::nat) = CHR ''5''"
  "char_of (54::nat) = CHR ''6''" "char_of (55::nat) = CHR ''7''" "char_of (56::nat) = CHR ''8''"
  "char_of (57::nat) = CHR ''9''"
  by code_simp+

declare show_nat.simps [simp del]

lemma show_nat_digits: "c \<in> set (show_nat n) \<Longrightarrow> is_digit c"
proof (induction n arbitrary: c rule: show_nat.induct)
  case (1 n)
  show ?case
  proof (cases "n < 10")
    case True
    with 1(2) have "c = char_of (48 + n)" by (simp add: show_nat.simps[of n])
    with True show ?thesis by (simp add: is_digit_def)
  next
    case False
    with 1(2) have "c \<in> set (show_nat (n div 10)) \<or> c = char_of (48 + n mod 10)"
      by (auto simp: show_nat.simps[of n])
    then show ?thesis
    proof
      assume "c \<in> set (show_nat (n div 10))"
      with 1(1)[OF False] show ?thesis .
    next
      assume c: "c = char_of (48 + n mod 10)"
      have "n mod 10 < 10" by simp
      then have "(48 + n mod 10) mod 256 = 48 + n mod 10" by simp
      with c show ?thesis by (simp add: is_digit_def)
    qed
  qed
qed

lemma show_int_plain:
  "CHR ''$'' \<notin> set (show_int i)" "CHR ''?'' \<notin> set (show_int i)"
  using show_nat_digits[of "CHR ''$''"] show_nat_digits[of "CHR ''?''"]
  by (auto simp: show_int_def is_digit_def)


section \<open>Properties of the composer\<close>

lemma rethrow_Inr: "rethrow r = Inr x \<longleftrightarrow> r = Inr x"
  by (cases r) (auto simp: rethrow_def split: error.splits)

lemma rethrow_build_error: "rethrow (Inl (SQLBuildError m)) = Inl (SQLBuildError m)"
  by (simp add: rethrow_def)

lemma buildComplexSQL_Inr:
  "buildComplexSQL query options = Inr res \<longleftrightarrow>
     validateInputs query options = Inr () \<and>
     (\<exists>finalQuery. assemble query options = Inr finalQuery
        \<and> substitute options finalQuery = Inr res)"
  by (auto simp: buildComplexSQL_def rethrow_Inr split: sum.splits)

lemma buildComplexSQL_sql_Inr:
  "buildComplexSQL_sql query options = Inr res \<longleftrightarrow>
     validateInputs_sql query options = Inr () \<and>
     (\<exists>finalQuery. assemble_sql query options = Inr finalQuery
        \<and> substitute_sql options finalQuery = Inr res)"
  by (auto simp: buildComplexSQL_sql_def rethrow_Inr split: sum.splits)

lemma substitute_Some:
  assumes "Option.bind options o_params = Some P"
  shows "substitute options finalQuery =
     (case replace_macros (orderByCondition options) finalQuery of
        Inl e \<Rightarrow> Inl e
      | Inr expanded \<Rightarrow>
          (case find (\<lambda>n. get_property P n = None) (placeholders expanded) of
             Some n \<Rightarrow> Inl (SQLBuildError (''Missing parameter: '' @ n))
           | None \<Rightarrow>
               Inr \<lparr>r_query = blank_placeholders expanded,
                    r_params = map (\<lambda>n. the (get_property P n)) (placeholders expanded)\<rparr>))"
  using assms
  by (simp add: substitute_def replace_params_char split: sum.splits option.splits)

lemma substitute_sql_Some:
  assumes "Option.bind options o_params = Some P"
  shows "substitute_sql options finalQuery =
     (case find (\<lambda>n. get_property P n = None) (placeholders finalQuery) of
        Some n \<Rightarrow> Inl (SQLBuildError (''Missing parameter: '' @ n))
      | None \<Rightarrow>
          Inr \<lparr>r_query = blank_placeholders finalQuery,
               r_params = map (\<lambda>n. the (get_property P n)) (placeholders finalQuery)\<rparr>)"
  using assms
  by (simp add: substitute_sql_def replace_params_char split: sum.splits option.splits)

lemma substitute_Nil: "substitute options [] = Inr \<lparr>r_query = [], r_params = []\<rparr>"
  by (simp add: substitute_def split: option.splits)

lemma substitute_sql_Nil: "substitute_sql options [] = Inr \<lparr>r_query = [], r_params = []\<rparr>"
  by (simp add: substitute_sql_def split: option.splits)

lemma substitute_literal_prefix:
  assumes "CHR ''$'' \<notin> set lit" "CHR ''?'' \<notin> set lit"
    and "substitute options (lit @ x) = Inr r"
  shows "\<exists>r'. substitute options x = Inr r' \<and> r_query r = lit @ r_query r'
              \<and> r_params r = r_params r'"
proof (cases "Option.bind options o_params")
  case None
  with assms(3) show ?thesis by (auto simp: substitute_def)
next
  case (Some P)
  from assms(3) obtain t where t: "replace_macros (orderByCondition options) x = Inr t"
    unfolding substitute_Some[OF Some] replace_macros_plain_prefix[OF assms(1)]
    by (auto split: sum.splits)
  with assms(3) show ?thesis
    unfolding substitute_Some[OF Some] replace_macros_plain_prefix[OF assms(1)]
    by (auto simp: placeholders_plain_prefix[OF assms(2)] split: option.splits)
qed

lemma substitute_sql_literal_prefix:
  assumes "CHR ''?'' \<notin> set lit"
    and "substitute_sql options (lit @ x) = Inr r"
  shows "\<exists>r'. substitute_sql options x = Inr r' \<and> r_query r = lit @ r_query r'
              \<and> r_params r = r_params r'"
proof (cases "Option.bind options o_params")
  case None
  with assms(2) show ?thesis by (auto simp: substitute_sql_def)
next
  case (Some P)
  from assms(2) show ?thesis
    unfolding substitute_sql_Some[OF Some]
    by (auto simp: placeholders_plain_prefix[OF assms(1)] split: option.splits)
qed

lemma substitute_split:
  assumes "\<not> is_ident_char c" "c \<noteq> CHR ''$''"
    and "substitute options (a @ c # b) = Inr res"
  shows "\<exists>ra rb. substitute options a = Inr ra \<and> substitute options (c # b) = Inr rb
           \<and> r_query res = r_query ra @ r_query rb
           \<and> r_params res = r_params ra @ r_params rb"
proof (cases "Option.bind options o_params")
  case None
  with assms(3) show ?thesis by (auto simp: substitute_def)
next
  case (Some P)
  let ?obc = "orderByCondition options"
  from assms(3) obtain a' where a': "replace_macros ?obc a = Inr a'"
    unfolding substitute_Some[OF Some] replace_macros_split[OF assms(1)]
    by (auto split: sum.splits)
  from assms(3) a' obtain b' where b': "replace_macros ?obc (c # b) = Inr b'"
    unfolding substitute_Some[OF Some] replace_macros_split[OF assms(1)]
    by (auto split: sum.splits)
  from b' obtain t where t: "b' = c # t"
    unfolding replace_macros_skip[OF assms(2)] by (auto split: sum.splits)
  have ex: "replace_macros ?obc (a @ c # b) = Inr (a' @ c # t)"
    unfolding replace_macros_split[OF assms(1)] a' b' t by simp
  have pl: "placeholders (a' @ c # t) = placeholders a' @ placeholders (c # t)"
    and bl: "blank_placeholders (a' @ c # t) = blank_placeholders a' @ blank_placeholders (c # t)"
    using placeholders_split[OF assms(1)] blank_placeholders_split[OF assms(1)] by auto
  from assms(3) have none:
    "find (\<lambda>n. get_property P n = None) (placeholders a' @ placeholders (c # t)) = None"
    and res: "res = \<lparr>r_query = blank_placeholders a' @ blank_placeholders (c # t),
                    r_params = map (\<lambda>n. the (get_property P n))
                                 (placeholders a' @ placeholders (c # t))\<rparr>"
    unfolding substitute_Some[OF Some] ex
    by (auto simp: pl bl split: option.splits
          simp del: placeholders.simps blank_placeholders.simps)
  from none have na: "find (\<lambda>n. get_property P n = None) (placeholders a') = None"
    and nb: "find (\<lambda>n. get_property P n = None) (placeholders (c # t)) = None"
    by (auto simp: find_None_iff simp del: placeholders.simps)
  have sa: "substitute options a =
              Inr \<lparr>r_query = blank_placeholders a',
                   r_params = map (\<lambda>n. the (get_property P n)) (placeholders a')\<rparr>"
    unfolding substitute_Some[OF Some] a' using na by (simp del: placeholders.simps)
  have sb: "substitute options (c # b) =
              Inr \<lparr>r_query = blank_placeholders (c # t),
                   r_params = map (\<lambda>n. the (get_property P n)) (placeholders (c # t))\<rparr>"
    unfolding substitute_Some[OF Some] b' t using nb
    by (simp del: placeholders.simps blank_placeholders.simps)
  show ?thesis using sa sb res by (simp del: placeholders.simps blank_placeholders.simps)
qed

lemma substitute_sql_split:
  assumes "\<not> is_ident_char c"
    and "substitute_sql options (a @ c # b) = Inr res"
  shows "\<exists>ra rb. substitute_sql options a = Inr ra \<and> substitute_sql options (c # b) = Inr rb
           \<and> r_query res = r_query ra @ r_query rb
           \<and> r_params res = r_params ra @ r_params rb"
proof (cases "Option.bind options o_params")
  case None
  with assms(2) show ?thesis by (auto simp: substitute_sql_def)
next
  case (Some P)
  have pl: "placeholders (a @ c # b) = placeholders a @ placeholders (c # b)"
    and bl: "blank_placeholders (a @ c # b) = blank_placeholders a @ blank_placeholders (c # b)"
    using placeholders_split[OF assms(1)] blank_placeholders_split[OF assms(1)] by auto
  from assms(2) have none:
    "find (\<lambda>n. get_property P n = None) (placeholders a @ placeholders (c # b)) = None"
    and res: "res = \<lparr>r_query = blank_placeholders a @ blank_placeholders (c # b),
                    r_params = map (\<lambda>n. the (get_property P n))
                                 (placeholders a @ placeholders (c # b))\<rparr>"
    unfolding substitute_sql_Some[OF Some]
    by (auto simp: pl bl split: option.splits
          simp del: placeholders.simps blank_placeholders.simps)
  from none have na: "find (\<lambda>n. get_property P n = None) (placeholders a) = None"
    and nb: "find (\<lambda>n. get_property P n = None) (placeholders (c # b)) = None"
    by (auto simp: find_None_iff simp del: placeholders.simps)
  have sa: "substitute_sql options a =
              Inr \<lparr>r_query = blank_placeholders a,
                   r_params = map (\<lambda>n. the (get_property P n)) (placeholders a)\<rparr>"
    unfolding substitute_sql_Some[OF Some] using na by (simp del: placeholders.simps)
  have sb: "substitute_sql options (c # b) =
              Inr \<lparr>r_query = blank_placeholders (c # b),
                   r_params = map (\<lambda>n. the (get_property P n)) (placeholders (c # b))\<rparr>"
    unfolding substitute_sql_Some[OF Some] using nb
    by (simp del: placeholders.simps blank_placeholders.simps)
  show ?thesis using sa sb res by (simp del: placeholders.simps blank_placeholders.simps)
qed


lemma substitute_sql_plain_tail:
  assumes "CHR ''?'' \<notin> set s"
    and "substitute_sql options (front @ CHR '' '' # s) = Inr res"
  shows "\<exists>pre. r_query res = pre @ CHR '' '' # s"
proof -
  have "\<exists>ra rb. substitute_sql options front = Inr ra
           \<and> substitute_sql options (CHR '' '' # s) = Inr rb
           \<and> r_query res = r_query ra @ r_query rb
           \<and> r_params res = r_params ra @ r_params rb"
    by (rule substitute_sql_split[OF _ assms(2)]) simp
  then obtain ra rb where
    "substitute_sql options front = Inr ra" and
    rb: "substitute_sql options (CHR '' '' # s) = Inr rb" and
    q: "r_query res = r_query ra @ r_query rb"
    by blast
  have "CHR ''?'' \<notin> set (CHR '' '' # s)" using assms(1) by auto
  from substitute_sql_literal_prefix[OF this, of options "[]" rb] rb
  have "r_query rb = CHR '' '' # s" by (simp add: substitute_sql_Nil)
  with q show ?thesis by auto
qed


subsection \<open>The shape of the assembled text\<close>

lemma join_Cons: "join sep (x # xs) = x @ concat (map (\<lambda>y. sep @ y) xs)"
  by (induction xs arbitrary: x) simp_all

lemma join_append:
  "xs \<noteq> [] \<Longrightarrow> join sep (xs @ ys) = join sep xs @ concat (map (\<lambda>y. sep @ y) ys)"
  by (cases xs) (simp_all add: join_Cons)

lemma join_nonempty:
  "xs \<noteq> [] \<Longrightarrow> list_all (\<lambda>x. x \<noteq> []) xs \<Longrightarrow> join sep xs \<noteq> []"
  by (cases xs) (simp_all add: join_Cons)

lemma select_nonempty: "buildSelectClause query options \<noteq> []"
  by (simp add: buildSelectClause_def Let_def)

lemma select_sql_nonempty: "buildSelectClause_sql query \<noteq> []"
  by (simp add: buildSelectClause_sql_def Let_def)

lemma assemble_shape:
  assumes "assemble query options = Inr fq"
  shows "\<exists>head. head \<noteq> [] \<and>
           fq = head @ concat (map (\<lambda>clause. '' '' @ clause)
                  (filter (\<lambda>clause. clause \<noteq> [])
                     [buildWhereClause query options, orderByClause options,
                      limitClause options, offsetClause options]))"
proof -
  from assms obtain fromClause where f: "buildFromClause query = Inr fromClause"
    by (auto simp: assemble_def split: sum.splits)
  let ?front = "[case q_withSubqueries query of Some ss \<Rightarrow> buildWithClause ss | None \<Rightarrow> [],
                 buildSelectClause query options, fromClause,
                 case q_withSubqueries query of Some ss \<Rightarrow> buildJoinClauses ss | None \<Rightarrow> []]"
  let ?rest = "[buildWhereClause query options, orderByClause options,
                limitClause options, offsetClause options]"
  let ?ne = "\<lambda>clause::string. clause \<noteq> []"
  have ne: "filter ?ne ?front \<noteq> []"
    using select_nonempty[of query options] by simp
  have "fq = join '' '' (filter ?ne (?front @ ?rest))"
    using assms f by (simp add: assemble_def del: filter.simps)
  then have "fq = join '' '' (filter ?ne ?front @ filter ?ne ?rest)"
    by (simp only: filter_append)
  then have fq: "fq = join '' '' (filter ?ne ?front)
                   @ concat (map (\<lambda>clause. '' '' @ clause) (filter ?ne ?rest))"
    using join_append[OF ne] by simp
  have "join '' '' (filter ?ne ?front) \<noteq> []"
  proof -
    have "\<And>xs. xs \<noteq> [] \<Longrightarrow> list_all ?ne xs \<Longrightarrow> join '' '' xs \<noteq> []"
    proof -
      fix xs :: "string list"
      show "xs \<noteq> [] \<Longrightarrow> list_all ?ne xs \<Longrightarrow> join '' '' xs \<noteq> []"
        by (induction "'' ''" xs rule: join.induct) auto
    qed
    moreover have "list_all ?ne (filter ?ne ?front)" by (simp add: list_all_iff)
    ultimately show ?thesis using ne by blast
  qed
  with fq show ?thesis by blast
qed

lemma assemble_sql_shape:
  assumes "assemble_sql query options = Inr fq"
  shows "\<exists>head. head \<noteq> [] \<and>
           fq = head @ concat (map (\<lambda>clause. '' '' @ clause)
                  (filter (\<lambda>clause. clause \<noteq> [])
                     [buildWhereClause query options, orderByClause options,
                      limitClause options, offsetClause options]))"
proof -
  from assms obtain fromClause where f: "buildFromClause query = Inr fromClause"
    by (auto simp: assemble_sql_def split: sum.splits)
  let ?front = "[case q_withSubqueries query of Some ss \<Rightarrow> buildWithClause_sql ss | None \<Rightarrow> [],
                 buildSelectClause_sql query, fromClause,
                 case q_withSubqueries query of Some ss \<Rightarrow> buildJoinClauses ss | None \<Rightarrow> []]"
  let ?rest = "[buildWhereClause query options, orderByClause options,
                limitClause options, offsetClause options]"
  let ?ne = "\<lambda>clause::string. clause \<noteq> []"
  have ne: "filter ?ne ?front \<noteq> []"
    using select_sql_nonempty[of query] by simp
  have "fq = join '' '' (filter ?ne (?front @ ?rest))"
    using assms f by (simp add: assemble_sql_def del: filter.simps)
  then have "fq = join '' '' (filter ?ne ?front @ filter ?ne ?rest)"
    by (simp only: filter_append)
  then have fq: "fq = join '' '' (filter ?ne ?front)
                   @ concat (map (\<lambda>clause. '' '' @ clause) (filter ?ne ?rest))"
    using join_append[OF ne] by simp
  have "list_all ?ne (filter ?ne ?front)" by (simp add: list_all_iff)
  with ne have "join '' '' (filter ?ne ?front) \<noteq> []" by (rule join_nonempty)
  with fq show ?thesis by blast
qed


lemma validate_sql_page_size:
  "validateInputs_sql query options = Inr () \<Longrightarrow> Option.bind options o_page_size = Some n \<Longrightarrow> 0 < n"
  by (auto simp: validateInputs_sql_def split: if_splits)

lemma limit_tail:
  assumes "Option.bind options o_page_size = Some n" "n \<noteq> 0"
    and "fq = head @ concat (map (\<lambda>clause. '' '' @ clause)
                  (filter (\<lambda>clause. clause \<noteq> [])
                     [buildWhereClause query options, orderByClause options,
                      limitClause options, offsetClause options]))"
  shows "Option.bind options o_page = Some p \<longrightarrow>
           (\<exists>front. fq = front @ CHR '' '' #
                      (''LIMIT '' @ show_int n @ '' OFFSET '' @ show_int (p * n)))"
    and "Option.bind options o_page = None \<longrightarrow>
           (\<exists>front. fq = front @ CHR '' '' # (''LIMIT '' @ show_int n))"
proof -
  have l: "limitClause options = ''LIMIT '' @ show_int n"
    using assms(1,2) by (simp add: limitClause_def)
  let ?front = "head @ concat (map (\<lambda>clause. '' '' @ clause)
                  (filter (\<lambda>clause. clause \<noteq> [])
                     [buildWhereClause query options, orderByClause options]))"
  show "Option.bind options o_page = Some p \<longrightarrow>
           (\<exists>front. fq = front @ CHR '' '' #
                      (''LIMIT '' @ show_int n @ '' OFFSET '' @ show_int (p * n)))"
  proof
    assume "Option.bind options o_page = Some p"
    then have off: "offsetClause options = ''OFFSET '' @ show_int (p * n)"
      using assms(1) by (simp add: offsetClause_def)
    have "fq = ?front @ CHR '' '' # (''LIMIT '' @ show_int n @ '' OFFSET '' @ show_int (p * n))"
      by (subst assms(3), subst l, subst off) simp
    then show "\<exists>front. fq = front @ CHR '' '' #
                      (''LIMIT '' @ show_int n @ '' OFFSET '' @ show_int (p * n))"
      by (intro exI)
  qed
  show "Option.bind options o_page = None \<longrightarrow>
           (\<exists>front. fq = front @ CHR '' '' # (''LIMIT '' @ show_int n))"
  proof
    assume "Option.bind options o_page = None"
    then have off: "offsetClause options = []" by (simp add: offsetClause_def)
    have "fq = ?front @ CHR '' '' # (''LIMIT '' @ show_int n)"
      by (subst assms(3), subst l, subst off) simp
    then show "\<exists>front. fq = front @ CHR '' '' # (''LIMIT '' @ show_int n)"
      by (intro exI)
  qed
qed

lemma trim_spaces: "list_all is_js_space w \<Longrightarrow> trim w = []"
proof -
  assume "list_all is_js_space w"
  then have "dropWhile is_js_space w = []"
    by (metis dropWhile_eq_Nil_conv list_all_iff)
  then show ?thesis unfolding trim_def by (simp only: rev.simps dropWhile.simps)
qed

lemma blank_where_clause:
  assumes "\<not> truthy (q_where query)" "Option.bind options o_where = Some w" "w \<noteq> []"
    and "list_all is_js_space w"
  shows "buildWhereClause query options = ''WHERE ''"
  using assms(1,2,3) trim_spaces[OF assms(4)]
  by (simp add: buildWhereClause_def truthy_def text_of_def)

lemma where_tail:
  assumes "buildWhereClause query options = ''WHERE ''"
    and "fq = head @ concat (map (\<lambda>clause. '' '' @ clause)
                  (filter (\<lambda>clause. clause \<noteq> [])
                     [buildWhereClause query options, orderByClause options,
                      limitClause options, offsetClause options]))"
  shows "\<exists>tail. fq = head @ CHR '' '' # (''WHERE '' @ tail)
           \<and> (tail = [] \<or> (\<exists>x. tail = '' ORDER BY '' @ x) \<or> (\<exists>x. tail = '' LIMIT '' @ x)
                \<or> (\<exists>x. tail = '' OFFSET '' @ x))"
proof -
  define tail where
    "tail = concat (map (\<lambda>clause. '' '' @ clause)
                  (filter (\<lambda>clause. clause \<noteq> [])
                     [orderByClause options, limitClause options, offsetClause options]))"
  have fq': "fq = head @ CHR '' '' # (''WHERE '' @ tail)"
    by (subst assms(2), subst assms(1)) (simp add: tail_def)
  have ob: "orderByClause options = [] \<or> (\<exists>x. orderByClause options = ''ORDER BY '' @ x)"
    by (auto simp: orderByClause_def split: option.splits)
  have li: "limitClause options = [] \<or> (\<exists>x. limitClause options = ''LIMIT '' @ x)"
    by (auto simp: limitClause_def split: option.splits)
  have off: "offsetClause options = [] \<or> (\<exists>x. offsetClause options = ''OFFSET '' @ x)"
    by (auto simp: offsetClause_def split: option.splits)
  have "tail = [] \<or> (\<exists>x. tail = '' ORDER BY '' @ x) \<or> (\<exists>x. tail = '' LIMIT '' @ x)
                 \<or> (\<exists>x. tail = '' OFFSET '' @ x)"
    using ob li off unfolding tail_def by auto
  with fq' have "fq = head @ CHR '' '' # (''WHERE '' @ tail)
           \<and> (tail = [] \<or> (\<exists>x. tail = '' ORDER BY '' @ x) \<or> (\<exists>x. tail = '' LIMIT '' @ x)
                \<or> (\<exists>x. tail = '' OFFSET '' @ x))"
    by (rule conjI)
  then show ?thesis by (intro exI)
qed


text \<open>
  A rewriting pass that copies a text without dollar signs and question marks keeps the
  keyword \<^verbatim>\<open>WHERE\<close> and the keyword of the clause after it.
\<close>

lemma where_kept:
  fixes pass :: "string \<Rightarrow> error + 'v BuildResult"
  assumes lit: "\<And>lit x r. CHR ''$'' \<notin> set lit \<Longrightarrow> CHR ''?'' \<notin> set lit \<Longrightarrow> pass (lit @ x) = Inr r \<Longrightarrow>
                  \<exists>t. r_query r = lit @ t"
    and exact: "\<And>lit r. CHR ''$'' \<notin> set lit \<Longrightarrow> CHR ''?'' \<notin> set lit \<Longrightarrow> pass lit = Inr r \<Longrightarrow>
                  r_query r = lit"
    and rb: "pass (CHR '' '' # (''WHERE '' @ tail)) = Inr rb"
    and tail: "tail = [] \<or> (\<exists>x. tail = '' ORDER BY '' @ x) \<or> (\<exists>x. tail = '' LIMIT '' @ x)
           \<or> (\<exists>x. tail = '' OFFSET '' @ x)"
  shows "\<exists>post. r_query rb = '' WHERE '' @ post
            \<and> (post = [] \<or> (\<exists>x. post = '' ORDER BY '' @ x) \<or> (\<exists>x. post = '' LIMIT '' @ x)
                 \<or> (\<exists>x. post = '' OFFSET '' @ x))"
proof -
  consider (e) "tail = []" | (o) x where "tail = '' ORDER BY '' @ x"
    | (l) x where "tail = '' LIMIT '' @ x" | (f) x where "tail = '' OFFSET '' @ x"
    using tail by blast
  then show ?thesis
  proof cases
    case e
    with rb have "pass '' WHERE '' = Inr rb" by simp
    from exact[OF _ _ this] have "r_query rb = '' WHERE '' @ []" by simp
    then show ?thesis by (intro exI[of _ "[]"]) simp
  next
    case o
    with rb have "pass ('' WHERE  ORDER BY '' @ x) = Inr rb" by simp
    from lit[OF _ _ this] obtain t where "r_query rb = '' WHERE  ORDER BY '' @ t" by auto
    then have "r_query rb = '' WHERE '' @ ('' ORDER BY '' @ t)" by simp
    then show ?thesis by (intro exI[of _ "'' ORDER BY '' @ t"]) simp
  next
    case l
    with rb have "pass ('' WHERE  LIMIT '' @ x) = Inr rb" by simp
    from lit[OF _ _ this] obtain t where "r_query rb = '' WHERE  LIMIT '' @ t" by auto
    then have "r_query rb = '' WHERE '' @ ('' LIMIT '' @ t)" by simp
    then show ?thesis by (intro exI[of _ "'' LIMIT '' @ t"]) simp
  next
    case f
    with rb have "pass ('' WHERE  OFFSET '' @ x) = Inr rb" by simp
    from lit[OF _ _ this] obtain t where "r_query rb = '' WHERE  OFFSET '' @ t" by auto
    then have "r_query rb = '' WHERE '' @ ('' OFFSET '' @ t)" by simp
    then show ?thesis by (intro exI[of _ "'' OFFSET '' @ t"]) simp
  qed
qed


subsection \<open>The validator as a search for the first violation\<close>

lemma validateSubqueries_find:
  "validateSubqueries ss =
     (case find (\<lambda>s. \<not> subquery_valid s) ss of
        None \<Rightarrow> Inr ()
      | Some s \<Rightarrow>
          Inl (SQLBuildError
                 (if \<not> subquery_complete s
                  then ''Invalid subquery configuration: missing required fields''
                  else ''Invalid join type: '' @ sq_joinType s)))"
  by (induction ss)
     (auto simp: subquery_valid_def subquery_complete_def join_kind_allowed_def)

lemma find_valid_None:
  "list_all subquery_valid ss \<Longrightarrow> find (\<lambda>s. \<not> subquery_valid s) ss = None"
  by (induction ss) auto

lemma find_valid_Some:
  "\<not> list_all subquery_valid ss \<Longrightarrow> \<exists>s. find (\<lambda>s. \<not> subquery_valid s) ss = Some s"
  by (induction ss) auto


subsection \<open>The merge of the view dependencies\<close>

text \<open>
  An object holds a key once, so the merged object of \<open>depWithClauses\<close> holds every
  key that some subquery names directly, once; and a view is emitted after the views it
  depends on.
\<close>

lemma set_insert_index: "set (insert_index k v obj) = insert (k, v) (set obj)"
  by (induction obj) (auto split: if_splits)

lemma keys_insert_index: "fst ` set (insert_index k v obj) = insert k (fst ` set obj)"
  by (simp add: set_insert_index)

lemma distinct_insert_index:
  "distinct (map fst obj) \<Longrightarrow> k \<notin> fst ` set obj \<Longrightarrow> distinct (map fst (insert_index k v obj))"
proof (induction obj)
  case Nil
  then show ?case by simp
next
  case (Cons a obj)
  obtain k' v' where a: "a = (k', v')" by (cases a)
  from Cons.prems have d: "distinct (map fst obj)" and n: "k \<notin> fst ` set obj"
    and ne: "k \<noteq> k'" and n': "k' \<notin> fst ` set obj"
    by (auto simp: a)
  have IH: "distinct (map fst (insert_index k v obj))" using Cons.IH d n by simp
  have "k' \<notin> fst ` set (insert_index k v obj)"
    using ne n' by (simp only: keys_insert_index) simp
  with IH d n n' ne show ?case by (simp add: a)
qed

lemma keys_obj_put_same: "k \<in> fst ` set obj \<Longrightarrow> map fst (obj_put k v obj) = map fst obj"
  by (induction obj) (auto simp: obj_put_def)

lemma keys_obj_put: "fst ` set (obj_put k v obj) = insert k (fst ` set obj)"
proof (cases "k \<in> fst ` set obj")
  case True
  have "fst ` set (obj_put k v obj) = set (map fst (obj_put k v obj))" by simp
  also have "\<dots> = set (map fst obj)" by (simp only: keys_obj_put_same[OF True])
  finally show ?thesis using True by auto
next
  case False
  show ?thesis
  proof (cases "is_array_index k")
    case True
    then show ?thesis using False by (simp add: obj_put_def keys_insert_index)
  next
    case no: False
    then show ?thesis using False by (simp add: obj_put_def)
  qed
qed

lemma distinct_obj_put: "distinct (map fst obj) \<Longrightarrow> distinct (map fst (obj_put k v obj))"
proof (cases "k \<in> fst ` set obj")
  case True
  assume "distinct (map fst obj)"
  then show ?thesis by (simp only: keys_obj_put_same[OF True])
next
  case False
  assume d: "distinct (map fst obj)"
  show ?thesis
  proof (cases "is_array_index k")
    case True
    then show ?thesis using False d by (simp add: obj_put_def distinct_insert_index)
  next
    case no: False
    then show ?thesis using False d by (simp add: obj_put_def)
  qed
qed

lemma copy_props_keys:
  "fst ` set (copy_props target src) = fst ` set target \<union> fst ` set src"
  unfolding copy_props_def
proof (induction src arbitrary: target)
  case Nil
  show ?case by simp
next
  case (Cons a src)
  obtain k v where a: "a = (k, v)" by (cases a)
  show ?case by (simp add: a Cons.IH keys_obj_put)
qed

lemma copy_props_distinct:
  "distinct (map fst target) \<Longrightarrow> distinct (map fst (copy_props target src))"
  unfolding copy_props_def
proof (induction src arbitrary: target)
  case Nil
  then show ?case by simp
next
  case (Cons a src)
  obtain k v where a: "a = (k, v)" by (cases a)
  from Cons.prems have "distinct (map fst (obj_put k v target))" by (rule distinct_obj_put)
  then show ?case using Cons.IH by (simp add: a)
qed

lemma spread_keys: "fst ` set (spread a b) = fst ` set a \<union> fst ` set b"
  by (simp add: spread_def copy_props_keys)

lemma spread_distinct: "distinct (map fst (spread a b))"
  by (simp add: spread_def copy_props_distinct)

lemma fold_deps_distinct:
  "distinct (map fst acc) \<Longrightarrow>
   distinct (map fst (foldl (\<lambda>acc subquery.
              case sq_dependsOn subquery of
                Some d \<Rightarrow> spread acc d
              | None \<Rightarrow> acc) acc subqueries))"
proof (induction subqueries arbitrary: acc)
  case Nil
  then show ?case by simp
next
  case (Cons s subqueries)
  show ?case
  proof (cases "sq_dependsOn s")
    case None
    then show ?thesis using Cons by simp
  next
    case (Some d)
    then show ?thesis using Cons.IH[of "spread acc d"] by (simp add: spread_distinct)
  qed
qed

lemma fold_deps_keys:
  "fst ` set (foldl (\<lambda>acc subquery.
              case sq_dependsOn subquery of
                Some d \<Rightarrow> spread acc d
              | None \<Rightarrow> acc) acc subqueries)
   = fst ` set acc \<union> \<Union> (direct_keys ` set subqueries)"
proof (induction subqueries arbitrary: acc)
  case Nil
  show ?case by simp
next
  case (Cons s subqueries)
  show ?case
  proof (cases "sq_dependsOn s")
    case None
    then show ?thesis using Cons.IH[of acc] by (simp add: direct_keys_def)
  next
    case (Some d)
    then show ?thesis using Cons.IH[of "spread acc d"]
      by (simp add: direct_keys_def spread_keys Un_assoc)
  qed
qed

lemma direct_dependencies_merged:
  "distinct (map fst (depWithClauses subqueries))"
  "fst ` set (depWithClauses subqueries) = \<Union> (direct_keys ` set subqueries)"
  unfolding depWithClauses_def
  using fold_deps_distinct[of "[]" subqueries] fold_deps_keys[of "[]" subqueries] by simp_all

lemma expandQueryView_depth_first:
  "expandQueryView v =
     concat (map (\<lambda>kv. expandQueryView (snd kv))
               (case qv_dependsOn v of None \<Rightarrow> [] | Some d \<Rightarrow> d))
     @ [trim (qv_name v) @ '' AS ('' @ trim (qv_query v) @ '')'']"
  by (cases v) (simp split: option.splits)


subsection \<open>Evaluation of the examples\<close>

lemmas eval_simps =
  buildComplexSQL_def validateInputs_def assemble_def substitute_def rethrow_def truthy_def
  text_of_def
  buildFromClause_def buildWhereClause_def buildSelectClause_def buildWithClause_def
  buildJoinClauses_def orderByCondition_def orderByClause_def limitClause_def offsetClause_def
  render_field_def sanitizeIdentifier_def trim_def is_js_space_def
  is_ident_char_def is_ident_start_def is_lower_def is_upper_def is_digit_def
  macro_callback_def get_property_def show_int_def ci_eq_def flip_word_def Let_def
  users_query_def no_options_def object_literal_def object_prototype_names_def
  show_nat.simps digit_chars

lemmas object_simps =
  depWithClauses_def spread_def copy_props_def obj_put_def is_array_index_def
  active_users_def user_posts_def posts_component_def active_component_def


section \<open>C1: dependencies in the WITH clause\<close>

text \<open>
  Claim C1 says that the WITH clause lists each view dependency depth-first, before the
  CTEs of the subqueries, and names each dependency at most once across the request, also
  when two subqueries share a dependency.

  \<open>expandQueryView\<close> does emit the dependencies of a view before the view, and
  \<open>buildWithClause\<close> does put the expanded views before the subqueries. The merge in
  \<open>depWithClauses\<close> removes duplicates among the keys that the subqueries name
  directly; \<open>expandQueryView\<close> keeps no record of what was emitted. In the request
  below the first subquery depends on \<^verbatim>\<open>user_posts\<close>, which depends on
  \<^verbatim>\<open>active_users\<close>, and the second subquery depends on \<^verbatim>\<open>active_users\<close>: the
  clause defines \<^verbatim>\<open>active_users\<close> twice.
\<close>

theorem shared_nested_view_twice:
  "buildWithClause [posts_component, active_component] =
     ''WITH active_users AS (SELECT id FROM users WHERE active), user_posts AS (SELECT p.user_id FROM posts p JOIN active_users a ON a.id = p.user_id), active_users AS (SELECT id FROM users WHERE active), post_counts AS (SELECT user_id, COUNT(*) AS n FROM user_posts GROUP BY user_id), active AS (SELECT id FROM active_users)''"
  by (simp add: eval_simps object_simps)


section \<open>C2: the order macros\<close>

text \<open>
  Claim C2 says that every \<^verbatim>\<open>$order_by\<close> of the assembled text is replaced by the
  joined order terms and every \<^verbatim>\<open>$rev_order_by\<close> by the same list with the
  directions exchanged, and that the composition fails when no order terms are given.

  The macro pass stands inside \<^verbatim>\<open>if (options?.params)\<close>. In the request below the
  options give two order terms, a page and a page size and no parameter object:
  \<open>buildSelectClause\<close> appends its two window-count columns, and the text comes back
  with the two macros of these columns still in it.
\<close>

theorem macros_left_without_params:
  "buildComplexSQL users_query
     (Some (no_options\<lparr>o_page := Some 0, o_page_size := Some 10,
                        o_order_by := Some [''u.name ASC'', ''u.id DESC'']\<rparr>))
   = Inr \<lparr>r_query = ''SELECT u.id AS id, u.name AS name, COUNT(u.id) OVER (ORDER BY $rev_order_by) - 1 AS _sql_util_remaining, COUNT(u.id) OVER (ORDER BY $order_by) AS _sql_util_num FROM users AS u ORDER BY u.name ASC, u.id DESC LIMIT 10 OFFSET 0'',
          r_params = []\<rparr>"
  by (simp add: eval_simps)


text \<open>
  With a parameter object the pass does what the claim says, at every token
  \<^verbatim>\<open>$order_by\<close> and \<^verbatim>\<open>$rev_order_by\<close> that is not followed by a further
  identifier character.
\<close>

lemma order_macros_with_params:
  assumes "post = [] \<or> \<not> is_ident_char (hd post)"
  shows "obc \<noteq> [] \<longrightarrow>
           replace_macros (Some obc) (pre @ ''$order_by'' @ post) =
             (case replace_macros (Some obc) pre of
                Inl e \<Rightarrow> Inl e
              | Inr a \<Rightarrow>
                  (case replace_macros (Some obc) post of
                     Inl e \<Rightarrow> Inl e | Inr b \<Rightarrow> Inr (a @ obc @ b)))"
    and "obc \<noteq> [] \<longrightarrow>
           replace_macros (Some obc) (pre @ ''$rev_order_by'' @ post) =
             (case replace_macros (Some obc) pre of
                Inl e \<Rightarrow> Inl e
              | Inr a \<Rightarrow>
                  (case replace_macros (Some obc) post of
                     Inl e \<Rightarrow> Inl e | Inr b \<Rightarrow> Inr (a @ rev_order obc @ b)))"
    and "\<not> truthy missing \<longrightarrow>
           replace_macros missing (pre @ ''$order_by'' @ post) =
             Inl (SQLBuildError ''Missing order_by'')"
    and "\<not> truthy missing \<longrightarrow>
           replace_macros missing (pre @ ''$rev_order_by'' @ post) =
             Inl (SQLBuildError ''Missing order_by'')"
    and "rev_order ''created_at DESC'' = ''created_at ASC''"
proof -
  have id: "''order_by'' \<noteq> []" "is_ident_start (hd ''order_by'')" "list_all is_ident_char ''order_by''"
    "''rev_order_by'' \<noteq> []" "is_ident_start (hd ''rev_order_by'')"
    "list_all is_ident_char ''rev_order_by''"
    by (simp_all add: is_ident_start_def is_ident_char_def is_lower_def is_upper_def is_digit_def)
  show "obc \<noteq> [] \<longrightarrow>
           replace_macros (Some obc) (pre @ ''$order_by'' @ post) =
             (case replace_macros (Some obc) pre of
                Inl e \<Rightarrow> Inl e
              | Inr a \<Rightarrow>
                  (case replace_macros (Some obc) post of
                     Inl e \<Rightarrow> Inl e | Inr b \<Rightarrow> Inr (a @ obc @ b)))"
    using macro_token_replaced[OF macro_order_by(1) id(1,2,3) assms, of obc pre] by simp
  show "obc \<noteq> [] \<longrightarrow>
           replace_macros (Some obc) (pre @ ''$rev_order_by'' @ post) =
             (case replace_macros (Some obc) pre of
                Inl e \<Rightarrow> Inl e
              | Inr a \<Rightarrow>
                  (case replace_macros (Some obc) post of
                     Inl e \<Rightarrow> Inl e | Inr b \<Rightarrow> Inr (a @ rev_order obc @ b)))"
    using macro_token_replaced[OF macro_order_by(2) id(4,5,6) assms, of obc pre] by simp
  show "\<not> truthy missing \<longrightarrow>
           replace_macros missing (pre @ ''$order_by'' @ post) =
             Inl (SQLBuildError ''Missing order_by'')"
    using macro_token_fails[OF macro_callback_falsy(1) id(1,2,3) assms, of missing pre] by simp
  show "\<not> truthy missing \<longrightarrow>
           replace_macros missing (pre @ ''$rev_order_by'' @ post) =
             Inl (SQLBuildError ''Missing order_by'')"
    using macro_token_fails[OF macro_callback_falsy(2) id(4,5,6) assms, of missing pre] by simp
  show "rev_order ''created_at DESC'' = ''created_at ASC''"
    by (simp add: ci_eq_def flip_word_def)
qed


section \<open>C3: a missing named parameter\<close>






text \<open>The same for the variant of sql.ts, which has no macro pass.\<close>

lemma missing_parameter_leftmost_sql:
  assumes "validateInputs_sql query options = Inr ()"
    and "assemble_sql query options = Inr assembled"
    and "Option.bind options o_params = Some P"
    and "find (\<lambda>n. get_property P n = None) (placeholders assembled) = Some name"
  shows "buildComplexSQL_sql query options = Inl (SQLBuildError (''Missing parameter: '' @ name))"
  using assms
  by (simp add: buildComplexSQL_sql_def substitute_sql_Some[OF assms(3)] rethrow_build_error)


text \<open>
  A name that the parameter object inherits is a property of it for the \<^verbatim>\<open>in\<close>
  operator: the placeholder \<^verbatim>\<open>?toString\<close> raises no error with the parameter
  object \<^verbatim>\<open>{}\<close>, and the inherited function becomes a parameter.
\<close>

lemma inherited_name_passes:
  "buildComplexSQL users_query
     (Some (no_options\<lparr>o_where := Some ''u.name = ?toString'',
                        o_params := Some (object_literal [])\<rparr>))
   = Inr \<lparr>r_query = ''SELECT u.id AS id, u.name AS name FROM users AS u WHERE (u.name = ?)'',
          r_params = [JFunction ''toString'']\<rparr>"
  by (simp add: eval_simps)


section \<open>C4: one parameter per placeholder occurrence\<close>




text \<open>The same for the variant of sql.ts.\<close>

lemma params_follow_placeholders_sql:
  assumes "buildComplexSQL_sql query options = Inr res"
    and "Option.bind options o_params = Some P"
  shows "\<exists>assembled.
           assemble_sql query options = Inr assembled
         \<and> r_query res = blank_placeholders assembled
         \<and> map Some (r_params res) = map (get_property P) (placeholders assembled)
         \<and> (\<forall>name v. own_props P name = Some v \<longrightarrow>
               map snd (filter (\<lambda>(n, x). n = name) (zip (placeholders assembled) (r_params res)))
               = replicate (count_list (placeholders assembled) name) v)"
proof -
  from assms(1) obtain assembled where
    asm: "assemble_sql query options = Inr assembled" and
    sub: "substitute_sql options assembled = Inr res"
    by (auto simp: buildComplexSQL_sql_Inr)
  from sub have
    none: "find (\<lambda>n. get_property P n = None) (placeholders assembled) = None"
    and res: "res = \<lparr>r_query = blank_placeholders assembled,
                    r_params = map (\<lambda>n. the (get_property P n)) (placeholders assembled)\<rparr>"
    unfolding substitute_sql_Some[OF assms(2)] by (auto split: option.splits)
  have vals: "map Some (r_params res) = map (get_property P) (placeholders assembled)"
    using find_None_all[OF none] by (auto simp: res)
  have occ: "\<forall>name v. own_props P name = Some v \<longrightarrow>
               map snd (filter (\<lambda>(n, x). n = name) (zip (placeholders assembled) (r_params res)))
               = replicate (count_list (placeholders assembled) name) v"
  proof (intro allI impI)
    fix name v assume "own_props P name = Some v"
    then have "get_property P name = Some v" by (simp add: get_property_def)
    with vals show "map snd (filter (\<lambda>(n, x). n = name) (zip (placeholders assembled) (r_params res)))
               = replicate (count_list (placeholders assembled) name) v"
      by (rule occurrences_values)
  qed
  show ?thesis
    using asm vals occ by (auto simp: res)
qed


section \<open>C5: the window-count columns of the select list\<close>

text \<open>
  Claim C5. The select clause is the main query's fields followed by the subqueries'
  fields, and the two columns \<^verbatim>\<open>_sql_util_remaining\<close> and \<^verbatim>\<open>_sql_util_num\<close> are
  appended exactly when the options give more than one order term together with a page
  and a page size. The macro pass, run with a non-empty order list, turns the first
  column into a count ordered by the reversed order terms and the second into a count
  ordered by the order terms.
\<close>

theorem select_window_columns:
  "buildSelectClause query options =
     ''SELECT '' @ join '', ''
        (selected_fields query @
         (if window_columns_requested options then window_columns (q_alias query) else []))
   \<and> (obc \<noteq> [] \<and> CHR ''$'' \<notin> set (q_alias query) \<longrightarrow>
        map (replace_macros (Some obc)) (window_columns (q_alias query)) =
          [Inr (''COUNT('' @ q_alias query @ ''.id) OVER (ORDER BY '' @ rev_order obc
                 @ '') - 1 AS _sql_util_remaining''),
           Inr (''COUNT('' @ q_alias query @ ''.id) OVER (ORDER BY '' @ obc
                 @ '') AS _sql_util_num'')])"
proof
  show "buildSelectClause query options =
     ''SELECT '' @ join '', ''
        (selected_fields query @
         (if window_columns_requested options then window_columns (q_alias query) else []))"
    by (cases options)
       (auto simp: buildSelectClause_def selected_fields_def window_columns_requested_def
          window_columns_def Let_def split: option.splits)
next
  show "obc \<noteq> [] \<and> CHR ''$'' \<notin> set (q_alias query) \<longrightarrow>
        map (replace_macros (Some obc)) (window_columns (q_alias query)) =
          [Inr (''COUNT('' @ q_alias query @ ''.id) OVER (ORDER BY '' @ rev_order obc
                 @ '') - 1 AS _sql_util_remaining''),
           Inr (''COUNT('' @ q_alias query @ ''.id) OVER (ORDER BY '' @ obc
                 @ '') AS _sql_util_num'')]"
    using window_column_remaining window_column_num
    by (simp add: window_columns_def del: replace_macros.simps)
qed

theorem select_window_columns_witness:
  "buildSelectClause
     \<lparr>q_sourceTable = Some ''users'', q_sourceQuery = None, q_alias = ''u'',
      q_fields = [(''id'', ''u.id'')], q_where = None, q_withSubqueries = None\<rparr>
     (Some \<lparr>o_where = None, o_params = (None :: unit SQParams option), o_page = Some 0,
            o_page_size = Some 10, o_order_by = Some [''a ASC'', ''b DESC'']\<rparr>)
   = ''SELECT u.id AS id, COUNT(u.id) OVER (ORDER BY $rev_order_by) - 1 AS _sql_util_remaining, COUNT(u.id) OVER (ORDER BY $order_by) AS _sql_util_num''
   \<and> map (replace_macros (Some ''a ASC, b DESC'')) (window_columns ''u'') =
       [Inr ''COUNT(u.id) OVER (ORDER BY a DESC, b ASC) - 1 AS _sql_util_remaining'',
        Inr ''COUNT(u.id) OVER (ORDER BY a ASC, b DESC) AS _sql_util_num'']"
  using select_window_columns
    [of "\<lparr>q_sourceTable = Some ''users'', q_sourceQuery = None, q_alias = ''u'',
          q_fields = [(''id'', ''u.id'')], q_where = None, q_withSubqueries = None\<rparr>"
        "Some \<lparr>o_where = None, o_params = (None :: unit SQParams option), o_page = Some 0,
            o_page_size = Some 10, o_order_by = Some [''a ASC'', ''b DESC'']\<rparr>"
        "''a ASC, b DESC''"]
  by (simp add: selected_fields_def window_columns_requested_def window_columns_def
        render_field_def trim_def is_js_space_def sanitizeIdentifier_def is_ident_char_def
        is_lower_def is_upper_def is_digit_def ci_eq_def flip_word_def
        del: replace_macros.simps)


section \<open>C6: pagination metadata\<close>

text \<open>
  Claim C6. For a non-empty list of rows that all carry the two window-count fields,
  \<open>paginateData\<close> returns the rows with a total equal to the first row's remaining
  count plus the first row's number, and \<open>has_more\<close> true exactly when the last row's
  remaining count is above 0. It fails when the fields are absent; the test reads the
  first row.
\<close>

theorem paginateData_total_has_more:
  fixes d :: "'a Pagination_scheme list"
  assumes "d \<noteq> []"
  shows "(list_all (\<lambda>r. sql_util_remaining r \<noteq> None \<and> sql_util_num r \<noteq> None) d \<longrightarrow>
            (\<exists>remaining num last_remaining.
               sql_util_remaining (hd d) = Some remaining \<and>
               sql_util_num (hd d) = Some num \<and>
               sql_util_remaining (last d) = Some last_remaining \<and>
               paginateData d args =
                 Inr \<lparr>pg_data = d,
                      pg_pagination =
                        \<lparr>p_page = (case a_page args of None \<Rightarrow> 0 | Some p \<Rightarrow> p),
                         p_limit = (case a_limit args of None \<Rightarrow> 10 | Some l \<Rightarrow> l),
                         p_total = remaining + num,
                         p_has_more = (0 < last_remaining)\<rparr>\<rparr>))
       \<and> (sql_util_remaining (hd d) = None \<or> sql_util_num (hd d) = None \<longrightarrow>
            paginateData d args =
              Inl (Error ''order_by, page, and page_size are required for pagination''))"
proof -
  obtain first rest where d: "d = first # rest" using assms by (cases d) auto
  have A: "list_all (\<lambda>r. sql_util_remaining r \<noteq> None \<and> sql_util_num r \<noteq> None) d \<longrightarrow>
            (\<exists>remaining num last_remaining.
               sql_util_remaining (hd d) = Some remaining \<and>
               sql_util_num (hd d) = Some num \<and>
               sql_util_remaining (last d) = Some last_remaining \<and>
               paginateData d args =
                 Inr \<lparr>pg_data = d,
                      pg_pagination =
                        \<lparr>p_page = (case a_page args of None \<Rightarrow> 0 | Some p \<Rightarrow> p),
                         p_limit = (case a_limit args of None \<Rightarrow> 10 | Some l \<Rightarrow> l),
                         p_total = remaining + num,
                         p_has_more = (0 < last_remaining)\<rparr>\<rparr>)"
  proof
    assume all: "list_all (\<lambda>r. sql_util_remaining r \<noteq> None \<and> sql_util_num r \<noteq> None) d"
    have "last d \<in> set d" using assms by simp
    with all obtain rl where rl: "sql_util_remaining (last d) = Some rl"
      by (auto simp: list_all_iff)
    from all d obtain r0 n0 where f: "sql_util_remaining first = Some r0" "sql_util_num first = Some n0"
      by auto
    show "\<exists>remaining num last_remaining.
               sql_util_remaining (hd d) = Some remaining \<and>
               sql_util_num (hd d) = Some num \<and>
               sql_util_remaining (last d) = Some last_remaining \<and>
               paginateData d args =
                 Inr \<lparr>pg_data = d,
                      pg_pagination =
                        \<lparr>p_page = (case a_page args of None \<Rightarrow> 0 | Some p \<Rightarrow> p),
                         p_limit = (case a_limit args of None \<Rightarrow> 10 | Some l \<Rightarrow> l),
                         p_total = remaining + num,
                         p_has_more = (0 < last_remaining)\<rparr>\<rparr>"
      using f rl d by (simp add: paginateData_def Let_def)
  qed
  have B: "sql_util_remaining (hd d) = None \<or> sql_util_num (hd d) = None \<longrightarrow>
            paginateData d args =
              Inl (Error ''order_by, page, and page_size are required for pagination'')"
    using d by (auto simp: paginateData_def Let_def split: option.splits)
  from A B show ?thesis by blast
qed

theorem paginateData_total_has_more_witness:
  "paginateData
     [\<lparr>sql_util_remaining = Some 7, sql_util_num = Some 3\<rparr>,
      \<lparr>sql_util_remaining = Some 0, sql_util_num = Some 10\<rparr>]
     \<lparr>a_page = Some 1, a_limit = None\<rparr>
   = Inr \<lparr>pg_data =
            [\<lparr>sql_util_remaining = Some 7, sql_util_num = Some 3\<rparr>,
             \<lparr>sql_util_remaining = Some 0, sql_util_num = Some 10\<rparr>],
          pg_pagination = \<lparr>p_page = 1, p_limit = 10, p_total = 10, p_has_more = False\<rparr>\<rparr>
   \<and> paginateData [\<lparr>sql_util_remaining = None, sql_util_num = Some 3\<rparr>]
        \<lparr>a_page = None, a_limit = None\<rparr>
     = Inl (Error ''order_by, page, and page_size are required for pagination'')"
  using paginateData_total_has_more
    [of "[\<lparr>sql_util_remaining = Some 7, sql_util_num = Some 3\<rparr>,
          \<lparr>sql_util_remaining = Some 0, sql_util_num = Some 10\<rparr>]"
        "\<lparr>a_page = Some 1, a_limit = None\<rparr>"]
    paginateData_total_has_more
    [of "[\<lparr>sql_util_remaining = None, sql_util_num = Some 3\<rparr>]"
        "\<lparr>a_page = None, a_limit = None\<rparr>"]
  by simp


section \<open>C7: the validator reports the first violated precondition\<close>




text \<open>
  The validator of sql.ts makes the same checks in the same order; it names
  \<^verbatim>\<open>sourceQuery\<close> in the message for a missing source.
\<close>

lemma validateInputs_sql_first_violation:
  "validateInputs_sql query options =
     (case first_violation query options of
        None \<Rightarrow> Inr ()
      | Some p \<Rightarrow> Inl (SQLBuildError (violation_message_sql p query)))"
proof (cases "q_withSubqueries query")
  case None
  then show ?thesis
    by (simp add: validateInputs_sql_def first_violation_def check_order_def
          split: option.splits)
next
  case (Some ss)
  show ?thesis
  proof (cases "list_all subquery_valid ss")
    case True
    then show ?thesis
      using Some find_valid_None[OF True]
      by (simp add: validateInputs_sql_def first_violation_def check_order_def
            validateSubqueries_find split: option.splits)
  next
    case False
    then obtain s where "find (\<lambda>s. \<not> subquery_valid s) ss = Some s"
      using find_valid_Some by blast
    then show ?thesis
      using Some False
      by (simp add: validateInputs_sql_def first_violation_def check_order_def
            validateSubqueries_find split: option.splits)
  qed
qed


section \<open>C8: LIMIT and OFFSET\<close>




text \<open>The same for the variant of sql.ts.\<close>

lemma limit_offset_sql:
  assumes "buildComplexSQL_sql query options = Inr res"
    and "Option.bind options o_page_size = Some n"
    and "n < 2 ^ 53"
  shows "(Option.bind options o_page = Some p \<and> p < 2 ^ 53 \<and> p * n < 2 ^ 53 \<longrightarrow>
            (\<exists>pre. r_query res = pre @ '' LIMIT '' @ show_int n @ '' OFFSET '' @ show_int (p * n)))
       \<and> (Option.bind options o_page = None \<longrightarrow>
            offsetClause options = [] \<and> (\<exists>pre. r_query res = pre @ '' LIMIT '' @ show_int n))"
proof -
  from assms(1) obtain fq where
    v: "validateInputs_sql query options = Inr ()" and
    a: "assemble_sql query options = Inr fq" and
    s: "substitute_sql options fq = Inr res"
    by (auto simp: buildComplexSQL_sql_Inr)
  from validate_sql_page_size[OF v assms(2)] have n: "n \<noteq> 0" by simp
  from assemble_sql_shape[OF a] obtain head where
    fq: "fq = head @ concat (map (\<lambda>clause. '' '' @ clause)
                  (filter (\<lambda>clause. clause \<noteq> [])
                     [buildWhereClause query options, orderByClause options,
                      limitClause options, offsetClause options]))"
    by blast
  note tails = limit_tail[OF assms(2) n fq]
  show ?thesis
  proof (intro conjI impI)
    assume "Option.bind options o_page = Some p \<and> p < 2 ^ 53 \<and> p * n < 2 ^ 53"
    with tails(1)[of p] obtain front where
      "fq = front @ CHR '' '' # (''LIMIT '' @ show_int n @ '' OFFSET '' @ show_int (p * n))"
      by blast
    with s have "substitute_sql options
        (front @ CHR '' '' # (''LIMIT '' @ show_int n @ '' OFFSET '' @ show_int (p * n))) = Inr res"
      by simp
    from substitute_sql_plain_tail[OF _ this]
    show "\<exists>pre. r_query res = pre @ '' LIMIT '' @ show_int n @ '' OFFSET '' @ show_int (p * n)"
      using show_int_plain by simp
  next
    assume "Option.bind options o_page = None"
    then show "offsetClause options = []" by (simp add: offsetClause_def)
  next
    assume "Option.bind options o_page = None"
    with tails(2) obtain front where "fq = front @ CHR '' '' # (''LIMIT '' @ show_int n)"
      by blast
    with s have "substitute_sql options (front @ CHR '' '' # (''LIMIT '' @ show_int n)) = Inr res"
      by simp
    from substitute_sql_plain_tail[OF _ this]
    show "\<exists>pre. r_query res = pre @ '' LIMIT '' @ show_int n"
      using show_int_plain by simp
  qed
qed


section \<open>C9: other dollar tokens, and requests without a parameter object\<close>

text \<open>
  Claim C9. With a parameter object, a token \<^verbatim>\<open>$identifier\<close> other than
  \<^verbatim>\<open>$order_by\<close> and \<^verbatim>\<open>$rev_order_by\<close> is deleted: the substitution gives the
  text and the parameters it gives for the text without the token. Without a parameter
  object the substitution returns the text as it is, with an empty parameter list, so the
  output of the composition is the assembled text.
\<close>

theorem dollar_tokens:
  "(Option.bind options o_params \<noteq> None \<and> name \<noteq> [] \<and> is_ident_start (hd name)
      \<and> list_all is_ident_char name \<and> name \<noteq> ''order_by'' \<and> name \<noteq> ''rev_order_by''
      \<and> (post = [] \<or> \<not> is_ident_char (hd post))
    \<longrightarrow> substitute options (pre @ CHR ''$'' # name @ post) = substitute options (pre @ post))
   \<and> (Option.bind options o_params = None
    \<longrightarrow> substitute options text = Inr \<lparr>r_query = text, r_params = []\<rparr>)
   \<and> (Option.bind options o_params = None \<and> buildComplexSQL query options = Inr res
    \<longrightarrow> assemble query options = Inr (r_query res) \<and> r_params res = [])"
proof (intro conjI impI)
  assume a: "Option.bind options o_params \<noteq> None \<and> name \<noteq> [] \<and> is_ident_start (hd name)
      \<and> list_all is_ident_char name \<and> name \<noteq> ''order_by'' \<and> name \<noteq> ''rev_order_by''
      \<and> (post = [] \<or> \<not> is_ident_char (hd post))"
  then have eq: "replace_macros (orderByCondition options) (pre @ CHR ''$'' # name @ post)
           = replace_macros (orderByCondition options) (pre @ post)"
    by (intro replace_macros_delete_token) simp_all
  from a obtain P where "Option.bind options o_params = Some P" by auto
  then show "substitute options (pre @ CHR ''$'' # name @ post) = substitute options (pre @ post)"
    by (simp add: substitute_def eq)
next
  assume "Option.bind options o_params = None"
  then show "substitute options text = Inr \<lparr>r_query = text, r_params = []\<rparr>"
    by (simp add: substitute_def)
next
  assume a: "Option.bind options o_params = None \<and> buildComplexSQL query options = Inr res"
  then obtain fq where fq: "assemble query options = Inr fq" "substitute options fq = Inr res"
    by (auto simp: buildComplexSQL_Inr)
  with a have "res = \<lparr>r_query = fq, r_params = []\<rparr>" by (simp add: substitute_def)
  then show "assemble query options = Inr (r_query res)" using fq by simp
next
  assume a: "Option.bind options o_params = None \<and> buildComplexSQL query options = Inr res"
  then obtain fq where fq: "assemble query options = Inr fq" "substitute options fq = Inr res"
    by (auto simp: buildComplexSQL_Inr)
  with a have "res = \<lparr>r_query = fq, r_params = []\<rparr>" by (simp add: substitute_def)
  then show "r_params res = []" by simp
qed

theorem dollar_tokens_witness:
  "substitute (Some (no_options\<lparr>o_params := Some (object_literal [(''id'', JNumber 1)])\<rparr>))
     ''u.id = ?id $tenant AND 1 = 1''
   = Inr \<lparr>r_query = ''u.id = ?  AND 1 = 1'', r_params = [JNumber 1]\<rparr>
   \<and> substitute (Some no_options) ''u.id = ?id $tenant''
     = Inr \<lparr>r_query = ''u.id = ?id $tenant'', r_params = []\<rparr>
   \<and> buildComplexSQL users_query (Some (no_options\<lparr>o_where := Some ''u.id = ?id $tenant''\<rparr>))
     = Inr \<lparr>r_query = ''SELECT u.id AS id, u.name AS name FROM users AS u WHERE (u.id = ?id $tenant)'',
            r_params = []\<rparr>
   \<and> assemble users_query (Some (no_options\<lparr>o_where := Some ''u.id = ?id $tenant''\<rparr>))
     = Inr ''SELECT u.id AS id, u.name AS name FROM users AS u WHERE (u.id = ?id $tenant)''"
proof -
  have ev: "buildComplexSQL users_query (Some (no_options\<lparr>o_where := Some ''u.id = ?id $tenant''\<rparr>))
     = Inr \<lparr>r_query = ''SELECT u.id AS id, u.name AS name FROM users AS u WHERE (u.id = ?id $tenant)'',
            r_params = []\<rparr>"
    by (simp add: eval_simps)
  have plain: "substitute (Some (no_options\<lparr>o_params := Some (object_literal [(''id'', JNumber 1)])\<rparr>))
      (''u.id = ?id '' @ '' AND 1 = 1'')
    = Inr \<lparr>r_query = ''u.id = ?  AND 1 = 1'', r_params = [JNumber 1]\<rparr>"
    by (simp add: eval_simps)
  show ?thesis
    using dollar_tokens
      [of "Some (no_options\<lparr>o_params := Some (object_literal [(''id'', JNumber 1)])\<rparr>)" "''tenant''"
          "'' AND 1 = 1''" "''u.id = ?id ''" "''u.id = ?id $tenant''" users_query
          "\<lparr>r_query = ''SELECT u.id AS id, u.name AS name FROM users AS u WHERE (u.id = ?id $tenant)'',
            r_params = []\<rparr>"]
      dollar_tokens
      [of "Some no_options" "''tenant''" "[]" "[]" "''u.id = ?id $tenant''" users_query
          "\<lparr>r_query = ''SELECT u.id AS id, u.name AS name FROM users AS u WHERE (u.id = ?id $tenant)'',
            r_params = []\<rparr>"]
      dollar_tokens
      [of "Some (no_options\<lparr>o_where := Some ''u.id = ?id $tenant''\<rparr>)" "''tenant''" "[]" "[]"
          "[]" users_query
          "\<lparr>r_query = ''SELECT u.id AS id, u.name AS name FROM users AS u WHERE (u.id = ?id $tenant)'',
            r_params = []\<rparr>"]
      ev plain
    by (simp add: no_options_def is_ident_start_def is_ident_char_def is_lower_def is_upper_def
          is_digit_def)
qed


section \<open>C10: an options filter of white space\<close>

text \<open>
  Claim C10. When the query has no filter of its own and the filter of the options is a
  non-empty string of white space, the WHERE clause is the keyword with an empty list of
  conditions, and the output text of a successful composition has the keyword followed
  at once by the end of the text or by the next clause.
\<close>

theorem blank_filter_where:
  assumes "buildComplexSQL query options = Inr res"
    and "\<not> truthy (q_where query)"
    and "Option.bind options o_where = Some w"
    and "w \<noteq> []"
    and "list_all is_js_space w"
  shows "buildWhereClause query options = ''WHERE ''
       \<and> (\<exists>pre post. r_query res = pre @ '' WHERE '' @ post
            \<and> (post = [] \<or> (\<exists>x. post = '' ORDER BY '' @ x) \<or> (\<exists>x. post = '' LIMIT '' @ x)
                 \<or> (\<exists>x. post = '' OFFSET '' @ x)))"
proof -
  from assms(1) obtain fq where
    a: "assemble query options = Inr fq" and
    s: "substitute options fq = Inr res"
    by (auto simp: buildComplexSQL_Inr)
  note wh = blank_where_clause[OF assms(2-5)]
  from assemble_shape[OF a] obtain head where
    fq: "fq = head @ concat (map (\<lambda>clause. '' '' @ clause)
                  (filter (\<lambda>clause. clause \<noteq> [])
                     [buildWhereClause query options, orderByClause options,
                      limitClause options, offsetClause options]))"
    by blast
  from where_tail[OF wh fq] obtain tail where
    fq': "fq = head @ CHR '' '' # (''WHERE '' @ tail)" and
    tail: "tail = [] \<or> (\<exists>x. tail = '' ORDER BY '' @ x) \<or> (\<exists>x. tail = '' LIMIT '' @ x)
                \<or> (\<exists>x. tail = '' OFFSET '' @ x)"
    by blast
  have "\<exists>ra rb. substitute options head = Inr ra
           \<and> substitute options (CHR '' '' # (''WHERE '' @ tail)) = Inr rb
           \<and> r_query res = r_query ra @ r_query rb
           \<and> r_params res = r_params ra @ r_params rb"
    by (rule substitute_split[OF _ _ s[unfolded fq']]) simp_all
  then obtain ra rb where
    "substitute options head = Inr ra" and
    rb: "substitute options (CHR '' '' # (''WHERE '' @ tail)) = Inr rb"
    and q: "r_query res = r_query ra @ r_query rb"
    by blast
  have "\<exists>post. r_query rb = '' WHERE '' @ post
            \<and> (post = [] \<or> (\<exists>x. post = '' ORDER BY '' @ x) \<or> (\<exists>x. post = '' LIMIT '' @ x)
                 \<or> (\<exists>x. post = '' OFFSET '' @ x))"
  proof (rule where_kept[of "substitute options", OF _ _ rb tail])
    fix lit x and r :: "'a BuildResult"
    assume "CHR ''$'' \<notin> set lit" "CHR ''?'' \<notin> set lit" "substitute options (lit @ x) = Inr r"
    from substitute_literal_prefix[OF this]
    show "\<exists>t. r_query r = lit @ t" by blast
  next
    fix lit and r :: "'a BuildResult"
    assume "CHR ''$'' \<notin> set lit" "CHR ''?'' \<notin> set lit" "substitute options lit = Inr r"
    then have "substitute options (lit @ []) = Inr r" by simp
    from substitute_literal_prefix[OF \<open>CHR ''$'' \<notin> set lit\<close> \<open>CHR ''?'' \<notin> set lit\<close> this]
    show "r_query r = lit" by (auto simp: substitute_Nil)
  qed
  then obtain post where
    rbq: "r_query rb = '' WHERE '' @ post" and
    post: "post = [] \<or> (\<exists>x. post = '' ORDER BY '' @ x) \<or> (\<exists>x. post = '' LIMIT '' @ x)
       \<or> (\<exists>x. post = '' OFFSET '' @ x)"
    by blast
  have "r_query res = r_query ra @ '' WHERE '' @ post
          \<and> (post = [] \<or> (\<exists>x. post = '' ORDER BY '' @ x) \<or> (\<exists>x. post = '' LIMIT '' @ x)
                 \<or> (\<exists>x. post = '' OFFSET '' @ x))"
    using q rbq post by simp
  then have "\<exists>pre post. r_query res = pre @ '' WHERE '' @ post
            \<and> (post = [] \<or> (\<exists>x. post = '' ORDER BY '' @ x) \<or> (\<exists>x. post = '' LIMIT '' @ x)
                 \<or> (\<exists>x. post = '' OFFSET '' @ x))"
    by (intro exI)
  with wh show ?thesis by (rule conjI)
qed

theorem blank_filter_where_witness:
  "buildComplexSQL users_query
     (Some (no_options\<lparr>o_where := Some ''  '', o_order_by := Some [''u.id ASC'']\<rparr>))
   = Inr \<lparr>r_query = ''SELECT u.id AS id, u.name AS name FROM users AS u WHERE  ORDER BY u.id ASC'',
          r_params = []\<rparr>
   \<and> buildWhereClause users_query
        (Some (no_options\<lparr>o_where := Some ''  '', o_order_by := Some [''u.id ASC'']\<rparr>))
     = ''WHERE ''
   \<and> (\<exists>pre post.
         ''SELECT u.id AS id, u.name AS name FROM users AS u WHERE  ORDER BY u.id ASC''
           = pre @ '' WHERE '' @ post
       \<and> (post = [] \<or> (\<exists>x. post = '' ORDER BY '' @ x) \<or> (\<exists>x. post = '' LIMIT '' @ x)
            \<or> (\<exists>x. post = '' OFFSET '' @ x)))"
proof -
  let ?o = "Some (no_options\<lparr>o_where := Some ''  '', o_order_by := Some [''u.id ASC'']\<rparr>)"
  let ?r = "\<lparr>r_query = ''SELECT u.id AS id, u.name AS name FROM users AS u WHERE  ORDER BY u.id ASC'',
          r_params = ([] :: jsvalue list)\<rparr>"
  have ev: "buildComplexSQL users_query ?o = Inr ?r" by (simp add: eval_simps)
  have h: "\<not> truthy (q_where users_query)" "Option.bind ?o o_where = Some ''  ''"
    "''  '' \<noteq> []" "list_all is_js_space ''  ''"
    by (simp_all add: eval_simps)
  from blank_filter_where[OF ev h] ev show ?thesis by simp
qed


text \<open>The same for the variant of sql.ts.\<close>

lemma blank_filter_where_sql:
  assumes "buildComplexSQL_sql query options = Inr res"
    and "\<not> truthy (q_where query)"
    and "Option.bind options o_where = Some w"
    and "w \<noteq> []"
    and "list_all is_js_space w"
  shows "buildWhereClause query options = ''WHERE ''
       \<and> (\<exists>pre post. r_query res = pre @ '' WHERE '' @ post
            \<and> (post = [] \<or> (\<exists>x. post = '' ORDER BY '' @ x) \<or> (\<exists>x. post = '' LIMIT '' @ x)
                 \<or> (\<exists>x. post = '' OFFSET '' @ x)))"
proof -
  from assms(1) obtain fq where
    a: "assemble_sql query options = Inr fq" and
    s: "substitute_sql options fq = Inr res"
    by (auto simp: buildComplexSQL_sql_Inr)
  note wh = blank_where_clause[OF assms(2-5)]
  from assemble_sql_shape[OF a] obtain head where
    fq: "fq = head @ concat (map (\<lambda>clause. '' '' @ clause)
                  (filter (\<lambda>clause. clause \<noteq> [])
                     [buildWhereClause query options, orderByClause options,
                      limitClause options, offsetClause options]))"
    by blast
  from where_tail[OF wh fq] obtain tail where
    fq': "fq = head @ CHR '' '' # (''WHERE '' @ tail)" and
    tail: "tail = [] \<or> (\<exists>x. tail = '' ORDER BY '' @ x) \<or> (\<exists>x. tail = '' LIMIT '' @ x)
                \<or> (\<exists>x. tail = '' OFFSET '' @ x)"
    by blast
  have "\<exists>ra rb. substitute_sql options head = Inr ra
           \<and> substitute_sql options (CHR '' '' # (''WHERE '' @ tail)) = Inr rb
           \<and> r_query res = r_query ra @ r_query rb
           \<and> r_params res = r_params ra @ r_params rb"
    by (rule substitute_sql_split[OF _ s[unfolded fq']]) simp
  then obtain ra rb where
    "substitute_sql options head = Inr ra" and
    rb: "substitute_sql options (CHR '' '' # (''WHERE '' @ tail)) = Inr rb"
    and q: "r_query res = r_query ra @ r_query rb"
    by blast
  have "\<exists>post. r_query rb = '' WHERE '' @ post
            \<and> (post = [] \<or> (\<exists>x. post = '' ORDER BY '' @ x) \<or> (\<exists>x. post = '' LIMIT '' @ x)
                 \<or> (\<exists>x. post = '' OFFSET '' @ x))"
  proof (rule where_kept[of "substitute_sql options", OF _ _ rb tail])
    fix lit x and r :: "'a BuildResult"
    assume "CHR ''$'' \<notin> set lit" "CHR ''?'' \<notin> set lit" "substitute_sql options (lit @ x) = Inr r"
    from substitute_sql_literal_prefix[OF this(2,3)]
    show "\<exists>t. r_query r = lit @ t" by blast
  next
    fix lit and r :: "'a BuildResult"
    assume "CHR ''$'' \<notin> set lit" "CHR ''?'' \<notin> set lit" "substitute_sql options lit = Inr r"
    then have "substitute_sql options (lit @ []) = Inr r" by simp
    from substitute_sql_literal_prefix[OF \<open>CHR ''?'' \<notin> set lit\<close> this]
    show "r_query r = lit" by (auto simp: substitute_sql_Nil)
  qed
  then obtain post where
    rbq: "r_query rb = '' WHERE '' @ post" and
    post: "post = [] \<or> (\<exists>x. post = '' ORDER BY '' @ x) \<or> (\<exists>x. post = '' LIMIT '' @ x)
       \<or> (\<exists>x. post = '' OFFSET '' @ x)"
    by blast
  have "r_query res = r_query ra @ '' WHERE '' @ post
          \<and> (post = [] \<or> (\<exists>x. post = '' ORDER BY '' @ x) \<or> (\<exists>x. post = '' LIMIT '' @ x)
                 \<or> (\<exists>x. post = '' OFFSET '' @ x))"
    using q rbq post by simp
  then have "\<exists>pre post. r_query res = pre @ '' WHERE '' @ post
            \<and> (post = [] \<or> (\<exists>x. post = '' ORDER BY '' @ x) \<or> (\<exists>x. post = '' LIMIT '' @ x)
                 \<or> (\<exists>x. post = '' OFFSET '' @ x))"
    by (intro exI)
  with wh show ?thesis by (rule conjI)
qed


end
